theory Spec2Isabelle
  imports Complex_Main "HOL-Library.Multiset"
begin

section \<open>The events table\<close>

text \<open>
  The door event logger is an Express server over one PostgreSQL table:
  \<^verbatim>\<open>
  CREATE TABLE events (
    id SERIAL PRIMARY KEY,
    door_number INTEGER NOT NULL CHECK (door_number >= 1 AND door_number <= 26),
    event_type VARCHAR(10) NOT NULL CHECK (event_type IN ('A_IN', 'A_OUT', 'B_IN', 'B_OUT')),
    timestamp_utc TIMESTAMP NOT NULL DEFAULT (NOW() AT TIME ZONE 'UTC'),
    created_at TIMESTAMP DEFAULT (NOW() AT TIME ZONE 'UTC'),
    deleted_at TIMESTAMP NULL
  );
  \<close>
  An instant is an integer count of milliseconds since 1970-01-01T00:00:00Z, the
  resolution of the JavaScript \<open>Date\<close> in which the handlers see a timestamp column;
  the digits below a millisecond that the database keeps are not modelled.
  The database session and the Node process are taken to run in UTC, so that
  \<open>NOW()\<close>, \<open>NOW() AT TIME ZONE 'UTC'\<close> and the \<open>Date\<close> of a column denote the
  same instant. The column \<open>id\<close> is the field \<open>event_id\<close> here, since \<open>id\<close> is
  the identity function of HOL.

  The four columns that every \<open>SELECT\<close> and \<open>RETURNING\<close> of the server lists form the
  record \<open>event\<close>; a stored row extends it by the two audit columns.
\<close>

type_synonym timestamp = int

record event =
  event_id :: int
  door_number :: int
  event_type :: string
  timestamp_utc :: timestamp

record row = event +
  created_at :: timestamp
  deleted_at :: "timestamp option"

text \<open>The column list \<open>id, door_number, event_type, timestamp_utc\<close>.\<close>

definition returning :: "row \<Rightarrow> event" where
  "returning r =
     \<lparr>event_id = event_id r, door_number = door_number r,
      event_type = event_type r, timestamp_utc = timestamp_utc r\<rparr>"

text \<open>
  The database state is the table and the sequence behind \<open>SERIAL\<close>. The table is the list
  of its rows in the order in which the engine yields them; SQL fixes neither that order
  nor the order of rows with equal sort keys, so every statement below about "the table"
  is proved for every list. \<open>events_id_seq\<close> holds the value that the next \<open>nextval\<close>
  returns; a sequence never hands out a value twice, also after rows are deleted.
\<close>

record db =
  events :: "row list"
  events_id_seq :: int

definition init_db :: db where
  "init_db = \<lparr>events = [], events_id_seq = 1\<rparr>"

datatype db_error = InvalidTextRepresentation | NotNullViolation | CheckViolation
  | NegativeLimit | BigintOutOfRange

subsection \<open>Characters, digits and integer input\<close>

text \<open>
  A character is a code unit below 256. \<open>js_white_space\<close> is the white space and line
  terminators of ECMAScript among them; \<open>digit_of\<close> is the value of a character as a
  digit, letters counting from 10 in either case.
\<close>

definition js_white_space :: "char \<Rightarrow> bool" where
  "js_white_space c \<longleftrightarrow>
     c \<in> set [CHR 0x09, CHR 0x0A, CHR 0x0B, CHR 0x0C, CHR 0x0D, CHR 0x20, CHR 0xA0]"

definition digit_of :: "char \<Rightarrow> int option" where
  "digit_of c =
     (let n = (of_char c :: int) in
      if 48 \<le> n \<and> n \<le> 57 then Some (n - 48)
      else if 97 \<le> n \<and> n \<le> 122 then Some (n - 87)
      else if 65 \<le> n \<and> n \<le> 90 then Some (n - 55)
      else None)"

definition is_radix_digit :: "int \<Rightarrow> char \<Rightarrow> bool" where
  "is_radix_digit R c = (case digit_of c of None \<Rightarrow> False | Some v \<Rightarrow> v < R)"

text \<open>
  A query parameter that the driver sends as text for an \<open>integer\<close> column or
  comparison is read by the input function of the type, here as PostgreSQL 16 and later
  define it (\<open>pg_strtoint32_safe\<close>): white space, a sign, then decimal digits or, after
  \<open>0x\<close>, \<open>0o\<close> or \<open>0b\<close>, digits of that radix, with single underscores between
  digits (and, for the prefixed forms, before the first digit), then white space to the
  end. \<open>None\<close> is the error that the query throws: invalid syntax, or a value outside
  the 32-bit range. Versions 14 and 15 refuse the prefixed and the underscore forms.

  \<open>pg_scan R decimal any acc s\<close> reads the digits: \<open>any\<close> tells whether a digit was
  read, and the result is the value, the rest of the text and \<open>any\<close>.
\<close>

definition pg_isspace :: "char \<Rightarrow> bool" where
  "pg_isspace c \<longleftrightarrow> c \<in> set [CHR 0x20, CHR 0x09, CHR 0x0A, CHR 0x0B, CHR 0x0C, CHR 0x0D]"

fun pg_scan :: "int \<Rightarrow> bool \<Rightarrow> bool \<Rightarrow> int \<Rightarrow> string \<Rightarrow> (int \<times> string \<times> bool) option" where
  "pg_scan R decimal any acc [] = Some (acc, [], any)"
| "pg_scan R decimal any acc (c # cs) =
     (if is_radix_digit R c then pg_scan R decimal True (acc * R + the (digit_of c)) cs
      else if c = CHR ''_'' then
        (if decimal \<and> \<not> any then None
         else if cs \<noteq> [] \<and> is_radix_digit R (hd cs) then pg_scan R decimal any acc cs
         else None)
      else Some (acc, c # cs, any))"

definition int4in :: "string \<Rightarrow> int option" where
  "int4in s =
     (let s1 = dropWhile pg_isspace s;
          neg = (s1 \<noteq> [] \<and> hd s1 = CHR ''-'');
          s2 = (if s1 \<noteq> [] \<and> (hd s1 = CHR ''-'' \<or> hd s1 = CHR ''+'') then tl s1 else s1);
          R = (if take 2 s2 = ''0x'' \<or> take 2 s2 = ''0X'' then 16
               else if take 2 s2 = ''0o'' \<or> take 2 s2 = ''0O'' then 8
               else if take 2 s2 = ''0b'' \<or> take 2 s2 = ''0B'' then 2
               else 10);
          s3 = (if R = 10 then s2 else drop 2 s2)
      in case pg_scan R (R = 10) False 0 s3 of
           None \<Rightarrow> None
         | Some (v, rest, any) \<Rightarrow>
             if \<not> any \<or> dropWhile pg_isspace rest \<noteq> [] then None
             else if neg then (if v > 2147483648 then None else Some (- v))
             else (if v > 2147483647 then None else Some v))"

subsection \<open>The SQL statements\<close>

definition check_door_number :: "int \<Rightarrow> bool" where
  "check_door_number n \<longleftrightarrow> n \<ge> 1 \<and> n \<le> 26"

definition check_event_type :: "string \<Rightarrow> bool" where
  "check_event_type t \<longleftrightarrow> t \<in> set [''A_IN'', ''A_OUT'', ''B_IN'', ''B_OUT'']"

text \<open>
  \<^verbatim>\<open>
  INSERT INTO events (door_number, event_type, timestamp_utc, created_at)
  VALUES ($1, $2, NOW() AT TIME ZONE 'UTC', NOW() AT TIME ZONE 'UTC')
  RETURNING id, door_number, event_type, timestamp_utc
  \<close>
  The default of \<open>id\<close> draws from the sequence before the constraints are checked, and a
  sequence is not rolled back: a rejected insert still consumes an id.
\<close>

definition insert_event :: "db \<Rightarrow> timestamp \<Rightarrow> int \<Rightarrow> string \<Rightarrow> db \<times> (db_error + event list)" where
  "insert_event d now dn et =
     (let r = \<lparr>event_id = events_id_seq d, door_number = dn, event_type = et,
               timestamp_utc = now, created_at = now, deleted_at = None\<rparr>;
          d' = d\<lparr>events_id_seq := events_id_seq d + 1\<rparr>
      in if check_door_number dn \<and> check_event_type et
         then (d'\<lparr>events := events d @ [r]\<rparr>, Inr [returning r])
         else (d', Inl CheckViolation))"

text \<open>
  \<^verbatim>\<open>
  UPDATE events SET deleted_at = NOW() AT TIME ZONE 'UTC'
  WHERE id = $1 AND deleted_at IS NULL
  RETURNING id
  \<close>
\<close>

definition update_deleted_at :: "db \<Rightarrow> timestamp \<Rightarrow> int \<Rightarrow> db \<times> int list" where
  "update_deleted_at d now i =
     (let hit = (\<lambda>r. event_id r = i \<and> deleted_at r = None)
      in (d\<lparr>events := map (\<lambda>r. if hit r then r\<lparr>deleted_at := Some now\<rparr> else r) (events d)\<rparr>,
          map event_id (filter hit (events d))))"

text \<open>
  \<open>ORDER BY timestamp_utc DESC\<close>: the rows sorted by descending timestamp. The sort is
  stable, so rows with equal timestamps stay in the order of the table, which is the
  engine's.
\<close>

definition order_by_timestamp_utc_desc :: "row list \<Rightarrow> row list" where
  "order_by_timestamp_utc_desc rs = sort_key (\<lambda>r. - timestamp_utc r) rs"

text \<open>
  \<^verbatim>\<open>
  SELECT id, door_number, event_type, timestamp_utc FROM events
  WHERE deleted_at IS NULL ORDER BY timestamp_utc DESC LIMIT $1
  \<close>
  The parameter of \<open>LIMIT\<close> is a \<open>bigint\<close>: PostgreSQL raises an error when it
  is negative and when it is beyond the range of the type.
\<close>

definition select_recent :: "db \<Rightarrow> int \<Rightarrow> db_error + event list" where
  "select_recent d limit =
     (if limit < 0 then Inl NegativeLimit
      else if limit > 9223372036854775807 then Inl BigintOutOfRange
      else Inr (map returning (take (nat limit)
             (order_by_timestamp_utc_desc (filter (\<lambda>r. deleted_at r = None) (events d))))))"

text \<open>
  \<^verbatim>\<open>
  SELECT id, door_number, event_type, timestamp_utc FROM events
  WHERE door_number = $1 AND event_type = $2 AND deleted_at IS NULL
  ORDER BY timestamp_utc DESC LIMIT 1
  \<close>
\<close>

definition select_last :: "db \<Rightarrow> int \<Rightarrow> string \<Rightarrow> event list" where
  "select_last d dn et =
     map returning (take 1 (order_by_timestamp_utc_desc
       (filter (\<lambda>r. door_number r = dn \<and> event_type r = et \<and> deleted_at r = None) (events d))))"

text \<open>
  \<^verbatim>\<open>
  SELECT id, door_number, event_type, timestamp_utc FROM events
  WHERE deleted_at IS NULL ORDER BY timestamp_utc DESC
  \<close>
\<close>

definition select_export :: "db \<Rightarrow> event list" where
  "select_export d =
     map returning (order_by_timestamp_utc_desc (filter (\<lambda>r. deleted_at r = None) (events d)))"

text \<open>
  \<^verbatim>\<open>
  DELETE FROM events
  WHERE created_at < NOW() - INTERVAL '${DATA_RETENTION_DAYS} days'
  RETURNING id
  \<close>
  The second component is \<open>rowCount\<close>. The number of days is the integer that the
  interval literal denotes.
\<close>

definition days_ms :: "int \<Rightarrow> int" where
  "days_ms n = n * 86400000"

definition delete_older :: "db \<Rightarrow> timestamp \<Rightarrow> int \<Rightarrow> db \<times> nat" where
  "delete_older d now days =
     (let old = (\<lambda>r. created_at r < now - days_ms days)
      in (d\<lparr>events := filter (\<lambda>r. \<not> old r) (events d)\<rparr>, length (filter old (events d))))"

section \<open>The request handlers\<close>

text \<open>
  A response is the status code and the body that the handler sends. The headers of
  the export (content type and the download's file name) carry no event data and are
  left out. A handler that writes returns the new database state with its response. The
  \<open>catch\<close> branches answer 500 when the query throws; the model raises the database
  errors above, and a lost connection or a timeout is not modelled.
\<close>

datatype payload =
  Event event
  | Events "event list"
  | Error string
  | Csv string
  | DeletedCount nat
  | NoBody

record response =
  status :: nat
  payload :: payload

subsection \<open>JavaScript values\<close>

text \<open>
  A member of a parsed JSON body: \<open>undefined\<close> when the member is missing, \<open>null\<close>, a
  boolean, a number (the double that \<open>JSON.parse\<close> yields, which is a rational), a
  string, or an object. \<open>JObj\<close> stands for any object that is not an array and has no
  member named \<open>toString\<close> or \<open>valueOf\<close>; arrays are not modelled.
\<close>

datatype jsval = JUndefined | JNull | JBool bool | JNum rat | JStr string | JObj

datatype number = NaN | Finite rat | PosInfinity | NegInfinity

text \<open>\<open>ToBoolean\<close>; \<open>!x\<close> is its negation.\<close>

fun ToBoolean :: "jsval \<Rightarrow> bool" where
  "ToBoolean JUndefined = False"
| "ToBoolean JNull = False"
| "ToBoolean (JBool b) = b"
| "ToBoolean (JNum r) = (r \<noteq> 0)"
| "ToBoolean (JStr s) = (s \<noteq> [])"
| "ToBoolean JObj = True"

text \<open>
  \<open>StringToNumber\<close>, by the grammar of ECMAScript: the text with white space trimmed
  at both ends is empty (0), or a radix literal \<open>0x\<close>, \<open>0o\<close>, \<open>0b\<close> with its digits
  and no sign, or a decimal literal with an optional sign: \<open>Infinity\<close>, or digits with an
  optional fraction and an optional exponent; anything else is \<open>NaN\<close>. The result is the
  exact value of the literal. JavaScript rounds it to the nearest double, which changes
  the comparisons with 1 and 26 below only for a fractional literal within \<open>2\<^sup>-\<^sup>4\<^sup>9\<close>
  of these numbers.
\<close>

definition digits_value :: "int \<Rightarrow> string \<Rightarrow> int" where
  "digits_value R ds = foldl (\<lambda>a c. a * R + the (digit_of c)) 0 ds"

definition NonDecimalIntegerLiteral :: "string \<Rightarrow> int option" where
  "NonDecimalIntegerLiteral t =
     (let R = (if take 2 t = ''0x'' \<or> take 2 t = ''0X'' then 16
               else if take 2 t = ''0o'' \<or> take 2 t = ''0O'' then 8
               else if take 2 t = ''0b'' \<or> take 2 t = ''0B'' then 2
               else 0);
          ds = drop 2 t
      in if R \<noteq> 0 \<and> ds \<noteq> [] \<and> list_all (is_radix_digit R) ds
         then Some (digits_value R ds) else None)"

definition ExponentPart :: "string \<Rightarrow> int option" where
  "ExponentPart r =
     (if r = [] then Some 0
      else if hd r = CHR ''e'' \<or> hd r = CHR ''E'' then
        (let s = tl r;
             neg = (s \<noteq> [] \<and> hd s = CHR ''-'');
             ds = (if s \<noteq> [] \<and> (hd s = CHR ''+'' \<or> hd s = CHR ''-'') then tl s else s)
         in if ds \<noteq> [] \<and> list_all (is_radix_digit 10) ds
            then Some ((if neg then - 1 else 1) * digits_value 10 ds) else None)
      else None)"

definition StrUnsignedDecimalLiteral :: "string \<Rightarrow> rat option" where
  "StrUnsignedDecimalLiteral u =
     (let ip = takeWhile (is_radix_digit 10) u;
          r1 = dropWhile (is_radix_digit 10) u;
          dot = (r1 \<noteq> [] \<and> hd r1 = CHR ''.'');
          fp = (if dot then takeWhile (is_radix_digit 10) (tl r1) else []);
          r2 = (if dot then dropWhile (is_radix_digit 10) (tl r1) else r1)
      in if ip = [] \<and> fp = [] then None
         else case ExponentPart r2 of
                None \<Rightarrow> None
              | Some e \<Rightarrow>
                  Some (of_int (digits_value 10 (ip @ fp)) * 10 powi (e - int (length fp))))"

definition StringToNumber :: "string \<Rightarrow> number" where
  "StringToNumber s =
     (let t = rev (dropWhile js_white_space (rev (dropWhile js_white_space s))) in
      if t = [] then Finite 0
      else case NonDecimalIntegerLiteral t of
             Some n \<Rightarrow> Finite (of_int n)
           | None \<Rightarrow>
               (let neg = (hd t = CHR ''-'');
                    u = (if hd t = CHR ''+'' \<or> hd t = CHR ''-'' then tl t else t)
                in if u = ''Infinity'' then (if neg then NegInfinity else PosInfinity)
                   else case StrUnsignedDecimalLiteral u of
                          None \<Rightarrow> NaN
                        | Some q \<Rightarrow> Finite (if neg then - q else q)))"

text \<open>
  \<open>ToNumber\<close>. An object converts through its string \<open>[object Object]\<close>, which is no
  literal.
\<close>

fun ToNumber :: "jsval \<Rightarrow> number" where
  "ToNumber JUndefined = NaN"
| "ToNumber JNull = Finite 0"
| "ToNumber (JBool b) = Finite (if b then 1 else 0)"
| "ToNumber (JNum r) = Finite r"
| "ToNumber (JStr s) = StringToNumber s"
| "ToNumber JObj = NaN"

text \<open>
  \<open>x < c\<close> and \<open>x > c\<close> for a value and a numeric constant: the value is converted by
  \<open>ToNumber\<close>, and a comparison with \<open>NaN\<close> is false.
\<close>

fun number_less :: "number \<Rightarrow> rat \<Rightarrow> bool" where
  "number_less NaN c = False"
| "number_less (Finite q) c = (q < c)"
| "number_less PosInfinity c = False"
| "number_less NegInfinity c = True"

fun number_greater :: "number \<Rightarrow> rat \<Rightarrow> bool" where
  "number_greater NaN c = False"
| "number_greater (Finite q) c = (q > c)"
| "number_greater PosInfinity c = True"
| "number_greater NegInfinity c = False"

text \<open>
  A value as the parameter of an \<open>integer\<close> column. The driver sends \<open>null\<close> and
  \<open>undefined\<close> as SQL \<open>NULL\<close> and every other value as text: a number by
  \<open>Number.prototype.toString\<close>, which is an integer literal exactly when the number is
  an integer (below \<open>10\<^sup>2\<^sup>1\<close>); a string as it is; a boolean as \<open>true\<close> or
  \<open>false\<close>; an object as its JSON text, which starts with a brace. The database reads
  the text by \<open>int4in\<close>.
\<close>

datatype pg_int4 = Null | Int4 int | Invalid

fun bind_int4 :: "jsval \<Rightarrow> pg_int4" where
  "bind_int4 JUndefined = Null"
| "bind_int4 JNull = Null"
| "bind_int4 (JBool b) = (case int4in (if b then ''true'' else ''false'') of None \<Rightarrow> Invalid | Some n \<Rightarrow> Int4 n)"
| "bind_int4 (JNum r) =
     (if r = of_int \<lfloor>r\<rfloor> \<and> - 2147483648 \<le> \<lfloor>r\<rfloor> \<and> \<lfloor>r\<rfloor> \<le> 2147483647 then Int4 \<lfloor>r\<rfloor> else Invalid)"
| "bind_int4 (JStr s) = (case int4in s of None \<Rightarrow> Invalid | Some n \<Rightarrow> Int4 n)"
| "bind_int4 JObj = Invalid"

subsection \<open>\<open>POST /api/events\<close>\<close>

text \<open>
  The JSON body of a record request, as an object with its members \<open>door_number\<close> and
  \<open>event_type\<close>. The body may carry further members; the one that matters below is a
  \<open>timestamp_utc\<close> supplied by the caller. The handler destructures \<open>door_number\<close> and
  \<open>event_type\<close> only.
\<close>

record post_body =
  body_door_number :: jsval
  body_event_type :: jsval
  body_timestamp_utc :: jsval

text \<open>
  \<^verbatim>\<open>
  const { door_number, event_type } = req.body;
  if (!door_number || !event_type) return res.status(400).json({ error: ... });
  if (door_number < 1 || door_number > 26) return res.status(400).json({ error: ... });
  if (!['A_IN', 'A_OUT', 'B_IN', 'B_OUT'].includes(event_type))
    return res.status(400).json({ error: ... });
  try { const result = await pool.query(INSERT ..., [door_number, event_type]);
        res.status(201).json(result.rows[0]); }
  catch (error) { res.status(500).json({ error: 'Failed to create event' }); }
  \<close>
  \<open>includes\<close> compares by identity of value, so it holds for a string equal to one of
  the four and for nothing else. The query throws before it runs when the database
  cannot read the parameter as an integer; a \<open>NULL\<close> parameter is refused by the
  column's \<open>NOT NULL\<close> after the id was drawn.
\<close>

definition post_events :: "db \<Rightarrow> timestamp \<Rightarrow> post_body \<Rightarrow> db \<times> response" where
  "post_events d now b =
     (let door_number = body_door_number b; event_type = body_event_type b in
      if \<not> ToBoolean door_number \<or> \<not> ToBoolean event_type
      then (d, \<lparr>status = 400, payload = Error ''door_number and event_type are required''\<rparr>)
      else if number_less (ToNumber door_number) 1 \<or> number_greater (ToNumber door_number) 26
      then (d, \<lparr>status = 400, payload = Error ''door_number must be between 1 and 26''\<rparr>)
      else if event_type \<notin> set (map JStr [''A_IN'', ''A_OUT'', ''B_IN'', ''B_OUT''])
      then (d, \<lparr>status = 400,
                payload = Error ''event_type must be A_IN, A_OUT, B_IN, or B_OUT''\<rparr>)
      else
        (case (bind_int4 door_number, event_type) of
           (Int4 dn, JStr et) \<Rightarrow>
             (case insert_event d now dn et of
                (d', Inr rows) \<Rightarrow> (d', \<lparr>status = 201, payload = Event (hd rows)\<rparr>)
              | (d', Inl e) \<Rightarrow> (d', \<lparr>status = 500, payload = Error ''Failed to create event''\<rparr>))
         | (Null, _) \<Rightarrow>
             (d\<lparr>events_id_seq := events_id_seq d + 1\<rparr>,
              \<lparr>status = 500, payload = Error ''Failed to create event''\<rparr>)
         | _ \<Rightarrow> (d, \<lparr>status = 500, payload = Error ''Failed to create event''\<rparr>)))"

subsection \<open>\<open>DELETE /api/events/:id\<close>\<close>

text \<open>
  \<^verbatim>\<open>
  const { id } = req.params;
  try { const result = await pool.query(UPDATE ..., [id]);
        if (result.rows.length === 0)
          return res.status(404).json({ error: 'Event not found or already deleted' });
        res.status(204).send(); }
  catch (error) { res.status(500).json({ error: 'Failed to delete event' }); }
  \<close>
  The path segment \<open>:id\<close> is a string, and the database reads it as an \<open>integer\<close> to
  compare it with the column \<open>id\<close>; when it cannot, the query throws. \<open>undo_by_id\<close> is
  the \<open>try\<close> block for a parameter read as the integer \<open>i\<close>.
\<close>

definition undo_by_id :: "db \<Rightarrow> timestamp \<Rightarrow> int \<Rightarrow> db \<times> response" where
  "undo_by_id d now i =
     (case update_deleted_at d now i of
        (d', rows) \<Rightarrow>
          if length rows = 0
          then (d', \<lparr>status = 404, payload = Error ''Event not found or already deleted''\<rparr>)
          else (d', \<lparr>status = 204, payload = NoBody\<rparr>))"

definition delete_events_id :: "db \<Rightarrow> timestamp \<Rightarrow> string \<Rightarrow> db \<times> response" where
  "delete_events_id d now id_text =
     (case int4in id_text of
        Some i \<Rightarrow> undo_by_id d now i
      | None \<Rightarrow> (d, \<lparr>status = 500, payload = Error ''Failed to delete event''\<rparr>))"

subsection \<open>\<open>GET /api/events/recent\<close>\<close>

text \<open>
  \<open>parseInt\<close> with no radix, as ECMAScript defines it: strip leading white space, read
  a sign, read the prefix \<open>0x\<close> or \<open>0X\<close> as radix 16, take the longest run of digits
  of the radix, and return \<open>NaN\<close> (here \<open>None\<close>) when that run is empty. A character is
  a code unit below 256. The result is the mathematical integer: JavaScript rounds a result
  of magnitude beyond 9007199254740992 to the nearest double, which is not modelled, so
  the properties below that name the result are stated within that bound.
\<close>

definition parseInt :: "string \<Rightarrow> int option" where
  "parseInt inputString =
     (let S = dropWhile js_white_space inputString;
          sign = (if S \<noteq> [] \<and> hd S = CHR ''-'' then - 1 else 1);
          S1 = (if S \<noteq> [] \<and> (hd S = CHR ''+'' \<or> hd S = CHR ''-'') then tl S else S);
          hex = (take 2 S1 = ''0x'' \<or> take 2 S1 = ''0X'');
          R = (if hex then 16 else 10);
          S2 = (if hex then drop 2 S1 else S1);
          Z = takeWhile (is_radix_digit R) S2
      in if Z = [] then None
         else Some (sign * foldl (\<lambda>a c. a * R + the (digit_of c)) 0 Z))"

text \<open>
  \<open>const limit = parseInt(req.query.limit) || 10;\<close> The query parameter is a string,
  or \<open>undefined\<close> when the query string has no \<open>limit\<close>; \<open>parseInt\<close> converts its
  argument to a string first. \<open>NaN\<close> and 0 are the falsy numbers.
\<close>

definition recent_limit :: "string option \<Rightarrow> int" where
  "recent_limit q =
     (case parseInt (case q of None \<Rightarrow> ''undefined'' | Some s \<Rightarrow> s) of
        None \<Rightarrow> 10
      | Some n \<Rightarrow> if n = 0 then 10 else n)"

definition get_events_recent :: "db \<Rightarrow> string option \<Rightarrow> response" where
  "get_events_recent d q =
     (let limit = recent_limit q in
      case select_recent d limit of
        Inr rows \<Rightarrow> \<lparr>status = 200, payload = Events rows\<rparr>
      | Inl e \<Rightarrow> \<lparr>status = 500, payload = Error ''Failed to fetch events''\<rparr>)"

subsection \<open>\<open>GET /api/events/last\<close>\<close>

text \<open>
  The query parameters are strings. \<open>door_number\<close> is given by the integer that the
  database reads from it, \<open>None\<close> when the parameter is missing or empty (the strings
  that \<open>!door_number\<close> accepts); \<open>event_type\<close> is the string, or \<open>None\<close>.
  \<^verbatim>\<open>
  if (!door_number || !event_type) return res.status(400).json({ error: ... });
  const result = await pool.query(SELECT ... LIMIT 1, [door_number, event_type]);
  if (result.rows.length === 0)
    return res.status(404).json({ error: 'No events found for this button' });
  res.json(result.rows[0]);
  \<close>
\<close>

text \<open>\<open>!x\<close> for a query parameter: a string, or \<open>undefined\<close>.\<close>

definition js_not_string :: "string option \<Rightarrow> bool" where
  "js_not_string x = (case x of None \<Rightarrow> True | Some s \<Rightarrow> s = [])"

definition get_events_last :: "db \<Rightarrow> int option \<Rightarrow> string option \<Rightarrow> response" where
  "get_events_last d dn et =
     (if dn = None \<or> js_not_string et
      then \<lparr>status = 400, payload = Error ''door_number and event_type are required''\<rparr>
      else
        let rows = select_last d (the dn) (the et) in
        if length rows = 0
        then \<lparr>status = 404, payload = Error ''No events found for this button''\<rparr>
        else \<lparr>status = 200, payload = Event (hd rows)\<rparr>)"

text \<open>
  Modelled from the spec: \<open>undo_last(door_number, event_type)\<close> "composes
  \<open>find_last_active\<close> then \<open>soft_delete(id)\<close>" and fails with NotFoundError when
  there is no such event. The server has no such route; the client that chains the two
  requests is not among the sources. The soft delete is the statement and the answer of
  \<open>DELETE /api/events/:id\<close> for the id that the last-event query returned.
\<close>

definition undo_last :: "db \<Rightarrow> timestamp \<Rightarrow> int \<Rightarrow> string \<Rightarrow> db \<times> response" where
  "undo_last d now dn et =
     (let last = get_events_last d (Some dn) (Some et) in
      case payload last of
        Event e \<Rightarrow> undo_by_id d now (event_id e)
      | _ \<Rightarrow> (d, last))"

subsection \<open>\<open>GET /api/events/export\<close>\<close>

text \<open>
  A template literal writes an integer in decimal, with a minus sign when negative.
\<close>

definition digit_char :: "nat \<Rightarrow> char" where
  "digit_char n = char_of (48 + n mod 10)"

fun decimal :: "nat \<Rightarrow> string" where
  "decimal n = (if n < 10 then [digit_char n] else decimal (n div 10) @ [digit_char (n mod 10)])"

definition number_to_string :: "int \<Rightarrow> string" where
  "number_to_string n = (if n < 0 then ''-'' @ decimal (nat (- n)) else decimal (nat n))"

text \<open>
  \<open>Date.prototype.toISOString\<close>, by the definitions of ECMAScript for a time value
  \<open>t\<close> in milliseconds: \<open>Day(t) = floor(t / msPerDay)\<close>, \<open>DaysInYear\<close>,
  \<open>DayFromYear\<close>, \<open>YearFromTime(t)\<close> as the largest year whose first day is not
  after \<open>Day(t)\<close>, \<open>InLeapYear\<close>, \<open>DayWithinYear\<close>, \<open>MonthFromTime\<close> and
  \<open>DateFromTime\<close> by their tables, and the hour, minute, second and millisecond. The
  largest year is found by counting up from a year that is not after it
  (\<open>year_search\<close>). The string is \<open>YYYY-MM-DDTHH:mm:ss.sssZ\<close>, the year in four digits
  from 0 to 9999 and otherwise as a sign and six digits; \<open>pad w n\<close> is the last \<open>w\<close>
  decimal digits of \<open>n\<close>.
\<close>

definition DaysInYear :: "int \<Rightarrow> int" where
  "DaysInYear y =
     (if y mod 4 \<noteq> 0 then 365
      else if y mod 100 \<noteq> 0 then 366
      else if y mod 400 \<noteq> 0 then 365
      else 366)"

definition DayFromYear :: "int \<Rightarrow> int" where
  "DayFromYear y =
     365 * (y - 1970) + (y - 1969) div 4 - (y - 1901) div 100 + (y - 1601) div 400"

function year_search :: "int \<Rightarrow> int \<Rightarrow> int" where
  "year_search y day = (if DayFromYear (y + 1) \<le> day then year_search (y + 1) day else y)"
  by pat_completeness auto
termination
proof (relation "measure (\<lambda>(y, day). nat (day + 1 - DayFromYear (y + 1)))")
  show "wf (measure (\<lambda>(y, day). nat (day + 1 - DayFromYear (y + 1))))"
    by simp
next
  fix y day :: int
  assume "DayFromYear (y + 1) \<le> day"
  moreover have "DayFromYear (y + 1) < DayFromYear (y + 1 + 1)"
  proof -
    define p q r where "p = (y + 1 - 1969) div 4" and "q = (y + 1 - 1901) div 100"
      and "r = (y + 1 - 1601) div 400"
    define p' q' r' where "p' = (y + 1 + 1 - 1969) div 4" and "q' = (y + 1 + 1 - 1901) div 100"
      and "r' = (y + 1 + 1 - 1601) div 400"
    have "p \<le> p'"
      unfolding p_def p'_def by (rule zdiv_mono1) simp_all
    moreover have "r \<le> r'"
      unfolding r_def r'_def by (rule zdiv_mono1) simp_all
    moreover have "q' \<le> q + 1"
    proof -
      have "(y + 1 - 1901 + 100) div 100 = (y + 1 - 1901) div 100 + 1"
        by simp
      moreover have "(y + 1 + 1 - 1901) div 100 \<le> (y + 1 - 1901 + 100) div 100"
        by (rule zdiv_mono1) simp_all
      ultimately show ?thesis
        unfolding q_def q'_def by simp
    qed
    moreover have "DayFromYear (y + 1) = 365 * (y + 1 - 1970) + p - q + r"
      unfolding DayFromYear_def p_def q_def r_def by (rule refl)
    moreover have "DayFromYear (y + 1 + 1) = 365 * (y + 1 + 1 - 1970) + p' - q' + r'"
      unfolding DayFromYear_def p'_def q'_def r'_def by (rule refl)
    ultimately show ?thesis
      by simp
  qed
  ultimately show "((y + 1, day), (y, day)) \<in> measure (\<lambda>(y, day). nat (day + 1 - DayFromYear (y + 1)))"
    by simp
qed

definition YearFromTime :: "timestamp \<Rightarrow> int" where
  "YearFromTime t =
     (let day = t div 86400000
      in year_search (1970 + (if 0 \<le> day then day div 366 else day div 365 - 1)) day)"

definition InLeapYear :: "timestamp \<Rightarrow> int" where
  "InLeapYear t = (if DaysInYear (YearFromTime t) = 365 then 0 else 1)"

definition DayWithinYear :: "timestamp \<Rightarrow> int" where
  "DayWithinYear t = t div 86400000 - DayFromYear (YearFromTime t)"

definition MonthFromTime :: "timestamp \<Rightarrow> int" where
  "MonthFromTime t =
     (let dwy = DayWithinYear t; leap = InLeapYear t in
      if dwy < 31 then 0
      else if dwy < 59 + leap then 1
      else if dwy < 90 + leap then 2
      else if dwy < 120 + leap then 3
      else if dwy < 151 + leap then 4
      else if dwy < 181 + leap then 5
      else if dwy < 212 + leap then 6
      else if dwy < 243 + leap then 7
      else if dwy < 273 + leap then 8
      else if dwy < 304 + leap then 9
      else if dwy < 334 + leap then 10
      else 11)"

definition DateFromTime :: "timestamp \<Rightarrow> int" where
  "DateFromTime t =
     (let dwy = DayWithinYear t; leap = InLeapYear t; m = MonthFromTime t in
      if m = 0 then dwy + 1
      else if m = 1 then dwy - 30
      else if m = 2 then dwy - 58 - leap
      else if m = 3 then dwy - 89 - leap
      else if m = 4 then dwy - 119 - leap
      else if m = 5 then dwy - 150 - leap
      else if m = 6 then dwy - 180 - leap
      else if m = 7 then dwy - 211 - leap
      else if m = 8 then dwy - 242 - leap
      else if m = 9 then dwy - 272 - leap
      else if m = 10 then dwy - 303 - leap
      else dwy - 333 - leap)"

definition HourFromTime :: "timestamp \<Rightarrow> int" where
  "HourFromTime t = t div 3600000 mod 24"

definition MinFromTime :: "timestamp \<Rightarrow> int" where
  "MinFromTime t = t div 60000 mod 60"

definition SecFromTime :: "timestamp \<Rightarrow> int" where
  "SecFromTime t = t div 1000 mod 60"

definition msFromTime :: "timestamp \<Rightarrow> int" where
  "msFromTime t = t mod 1000"

fun pad :: "nat \<Rightarrow> int \<Rightarrow> string" where
  "pad 0 n = []"
| "pad (Suc w) n = pad w (n div 10) @ [digit_char (nat (n mod 10))]"

definition toISOString :: "timestamp \<Rightarrow> string" where
  "toISOString t =
     (let y = YearFromTime t in
      (if 0 \<le> y \<and> y \<le> 9999 then pad 4 y
       else (if y < 0 then ''-'' else ''+'') @ pad 6 (abs y))
      @ ''-'' @ pad 2 (MonthFromTime t + 1) @ ''-'' @ pad 2 (DateFromTime t)
      @ ''T'' @ pad 2 (HourFromTime t) @ '':'' @ pad 2 (MinFromTime t)
      @ '':'' @ pad 2 (SecFromTime t) @ ''.'' @ pad 3 (msFromTime t) @ ''Z'')"

text \<open>\<open>Array.prototype.join\<close>.\<close>

fun join :: "string \<Rightarrow> string list \<Rightarrow> string" where
  "join sep [] = []"
| "join sep [x] = x"
| "join sep (x # y # ys) = x @ sep @ join sep (y # ys)"

text \<open>
  \<^verbatim>\<open>
  const headers = 'id,door_number,event_type,timestamp_utc\n';
  const rows = result.rows.map(row =>
    `${row.id},${row.door_number},${row.event_type},${row.timestamp_utc.toISOString()}`
  ).join('\n');
  const csv = headers + rows;
  res.send(csv);
  \<close>
\<close>

definition csv_row :: "event \<Rightarrow> string" where
  "csv_row row =
     number_to_string (event_id row) @ '','' @ number_to_string (door_number row) @ '',''
     @ event_type row @ '','' @ toISOString (timestamp_utc row)"

definition export_rows :: "db \<Rightarrow> string list" where
  "export_rows d = map csv_row (select_export d)"

definition get_events_export :: "db \<Rightarrow> response" where
  "get_events_export d =
     (let headers = ''id,door_number,event_type,timestamp_utc'' @ [CHR 0x0A];
          rows = join [CHR 0x0A] (export_rows d);
          csv = headers @ rows
      in \<lparr>status = 200, payload = Csv csv\<rparr>)"

subsection \<open>\<open>POST /api/cleanup\<close>\<close>


definition post_cleanup :: "db \<Rightarrow> timestamp \<Rightarrow> int \<Rightarrow> db \<times> response" where
  "post_cleanup d now days =
     (case delete_older d now days of
        (d', deletedCount) \<Rightarrow> (d', \<lparr>status = 200, payload = DeletedCount deletedCount\<rparr>))"

section \<open>Runs of the server\<close>

text \<open>
  The three writing operations of the ledger (record, undo, cleanup) are the three
  writing routes. A run serves a list of requests, each at the server time at which its
  statement executes, and collects the responses.
\<close>

datatype request = Record post_body | Undo string | Cleanup int

fun serve :: "db \<Rightarrow> timestamp \<Rightarrow> request \<Rightarrow> db \<times> response" where
  "serve d now (Record b) = post_events d now b"
| "serve d now (Undo i) = delete_events_id d now i"
| "serve d now (Cleanup days) = post_cleanup d now days"

fun run :: "db \<Rightarrow> (timestamp \<times> request) list \<Rightarrow> db \<times> response list" where
  "run d [] = (d, [])"
| "run d ((now, q) # qs) =
     (case serve d now q of
        (d', r) \<Rightarrow> (case run d' qs of (d'', rs) \<Rightarrow> (d'', r # rs)))"

fun is_cleanup :: "request \<Rightarrow> bool" where
  "is_cleanup (Cleanup days) = True"
| "is_cleanup _ = False"

definition count_status :: "nat \<Rightarrow> response list \<Rightarrow> nat" where
  "count_status c rs = length (filter (\<lambda>r. status r = c) rs)"

text \<open>
  The constraints of the schema that the statements rely on: \<open>id\<close> is a primary key,
  and every id in the table was drawn from the sequence.
\<close>

definition primary_key :: "db \<Rightarrow> bool" where
  "primary_key d \<longleftrightarrow>
     distinct (map event_id (events d)) \<and> (\<forall>r \<in> set (events d). event_id r < events_id_seq d)"

text \<open>
  The state of an event id: no row yet and the sequence has not reached it; an active row;
  a soft-deleted row; or no row and the sequence has passed it, so that no insert can
  bring it back.
\<close>

datatype event_state = Unassigned | Active | Deleted | Gone

definition event_state :: "db \<Rightarrow> int \<Rightarrow> event_state" where
  "event_state d i =
     (case find (\<lambda>r. event_id r = i) (events d) of
        Some r \<Rightarrow> if deleted_at r = None then Active else Deleted
      | None \<Rightarrow> if i < events_id_seq d then Gone else Unassigned)"

text \<open>
  The transitions of the state machine, by the operation that may take them. A record
  request that the database refuses after it drew the id leaves that id with no row.
\<close>

fun transition :: "request \<Rightarrow> event_state \<Rightarrow> event_state \<Rightarrow> bool" where
  "transition (Record b) Unassigned Active = True"
| "transition (Record b) Unassigned Gone = True"
| "transition (Undo i) Active Deleted = True"
| "transition (Cleanup days) Active Gone = True"
| "transition (Cleanup days) Deleted Gone = True"
| "transition q s s' = (s = s')"

section \<open>Example inputs\<close>

text \<open>
  Concrete requests and tables at which the properties below are evaluated. The instant
  1759485600000 is 2025-10-03T10:00:00.000Z. \<open>door5_twice\<close> is the table after two
  records of door 5, \<open>A_IN\<close>, served at that same instant; \<open>week_table\<close> holds rows
  created 8, 7 and 6 days before it, active and soft-deleted; \<open>dozen_table\<close> holds
  twelve active rows; \<open>undone_table\<close> is the table after one record and its undo.
\<close>

definition body_27 :: post_body where
  "body_27 =
     \<lparr>body_door_number = JNum 27, body_event_type = JStr ''A_IN'',
      body_timestamp_utc = JUndefined\<rparr>"

definition door5_twice :: db where
  "door5_twice =
     \<lparr>events =
        [\<lparr>event_id = 1, door_number = 5, event_type = ''A_IN'', timestamp_utc = 1759485600000,
           created_at = 1759485600000, deleted_at = None\<rparr>,
         \<lparr>event_id = 2, door_number = 5, event_type = ''A_IN'', timestamp_utc = 1759485600000,
           created_at = 1759485600000, deleted_at = None\<rparr>],
      events_id_seq = 3\<rparr>"

definition body_5_A_IN :: post_body where
  "body_5_A_IN =
     \<lparr>body_door_number = JNum 5, body_event_type = JStr ''A_IN'',
      body_timestamp_utc = JUndefined\<rparr>"

definition body_5_A_IN_backdated :: post_body where
  "body_5_A_IN_backdated =
     \<lparr>body_door_number = JNum 5, body_event_type = JStr ''A_IN'',
      body_timestamp_utc = JStr ''1999-12-31T23:59:59.000Z''\<rparr>"

definition week_table :: db where
  "week_table =
     \<lparr>events =
        [\<lparr>event_id = 1, door_number = 3, event_type = ''B_OUT'',
           timestamp_utc = 1759485600000 - 8 * 86400000,
           created_at = 1759485600000 - 8 * 86400000, deleted_at = None\<rparr>,
         \<lparr>event_id = 2, door_number = 3, event_type = ''B_OUT'',
           timestamp_utc = 1759485600000 - 8 * 86400000,
           created_at = 1759485600000 - 8 * 86400000,
           deleted_at = Some (1759485600000 - 8 * 86400000 + 5000)\<rparr>,
         \<lparr>event_id = 3, door_number = 5, event_type = ''A_IN'',
           timestamp_utc = 1759485600000 - 7 * 86400000,
           created_at = 1759485600000 - 7 * 86400000, deleted_at = None\<rparr>,
         \<lparr>event_id = 4, door_number = 5, event_type = ''A_IN'',
           timestamp_utc = 1759485600000 - 6 * 86400000,
           created_at = 1759485600000 - 6 * 86400000, deleted_at = None\<rparr>,
         \<lparr>event_id = 5, door_number = 6, event_type = ''A_OUT'',
           timestamp_utc = 1759485600000 - 6 * 86400000,
           created_at = 1759485600000 - 6 * 86400000,
           deleted_at = Some (1759485600000 - 86400000)\<rparr>],
      events_id_seq = 6\<rparr>"

definition dozen_table :: db where
  "dozen_table =
     \<lparr>events = map (\<lambda>k. \<lparr>event_id = k, door_number = 5, event_type = ''A_IN'',
                          timestamp_utc = 1759485600000 + 1000 * k,
                          created_at = 1759485600000 + 1000 * k, deleted_at = None\<rparr>) [1..12],
      events_id_seq = 13\<rparr>"

definition undone_table :: db where
  "undone_table =
     \<lparr>events =
        [\<lparr>event_id = 1, door_number = 5, event_type = ''A_IN'', timestamp_utc = 1759485600000,
           created_at = 1759485600000, deleted_at = Some 1759485660000\<rparr>],
      events_id_seq = 2\<rparr>"

definition sample_run :: "(timestamp \<times> request) list" where
  "sample_run =
     [(1759485600000, Record body_5_A_IN), (1759485601000, Record body_5_A_IN),
      (1759485602000, Record body_27), (1759485603000, Undo ''1''),
      (1759485604000, Undo ''1''), (1759485605000, Record body_5_A_IN)]"

definition body_abc :: post_body where
  "body_abc =
     \<lparr>body_door_number = JStr ''abc'', body_event_type = JStr ''A_IN'',
      body_timestamp_utc = JUndefined\<rparr>"

definition body_2_7 :: post_body where
  "body_2_7 =
     \<lparr>body_door_number = JStr ''2_7'', body_event_type = JStr ''A_IN'',
      body_timestamp_utc = JUndefined\<rparr>"

section \<open>Properties of the handlers\<close>

subsection \<open>Recording an event\<close>

text \<open>
  The four outcomes of a record request: a validation error with the state untouched;
  a query that throws before it runs; a query that throws after it drew an id; and the
  insert of one row at the server time.
\<close>

lemma post_events_outcome:
  "(\<exists>msg. post_events d now b = (d, \<lparr>status = 400, payload = Error msg\<rparr>))
   \<or> post_events d now b = (d, \<lparr>status = 500, payload = Error ''Failed to create event''\<rparr>)
   \<or> post_events d now b =
       (d\<lparr>events_id_seq := events_id_seq d + 1\<rparr>,
        \<lparr>status = 500, payload = Error ''Failed to create event''\<rparr>)
   \<or> (\<exists>dn et. post_events d now b =
         (d\<lparr>events := events d @ [\<lparr>event_id = events_id_seq d, door_number = dn,
               event_type = et, timestamp_utc = now, created_at = now, deleted_at = None\<rparr>],
             events_id_seq := events_id_seq d + 1\<rparr>,
          \<lparr>status = 201, payload = Event \<lparr>event_id = events_id_seq d, door_number = dn,
               event_type = et, timestamp_utc = now\<rparr>\<rparr>))"
  by (simp add: post_events_def insert_event_def returning_def Let_def
      split: pg_int4.split jsval.split)

lemma post_events_accepts:
  assumes "body_door_number b = JNum (of_int n)" "1 \<le> n" "n \<le> 26"
    and "body_event_type b = JStr t" "t \<in> {''A_IN'', ''A_OUT'', ''B_IN'', ''B_OUT''}"
  shows "post_events d now b =
     (d\<lparr>events := events d @ [\<lparr>event_id = events_id_seq d, door_number = n, event_type = t,
               timestamp_utc = now, created_at = now, deleted_at = None\<rparr>],
         events_id_seq := events_id_seq d + 1\<rparr>,
      \<lparr>status = 201, payload = Event \<lparr>event_id = events_id_seq d, door_number = n,
               event_type = t, timestamp_utc = now\<rparr>\<rparr>)"
proof -
  have "n \<noteq> 0" "\<not> (of_int n :: rat) < 1" "\<not> (of_int n :: rat) > 26"
    using assms(2,3) by simp_all
  moreover have "t \<noteq> []"
    using assms(5) by auto
  ultimately show ?thesis
    using assms
    by (auto simp: post_events_def insert_event_def check_door_number_def
        check_event_type_def returning_def Let_def)
qed

text \<open>
  Claim C3. The claim fails on the code. A \<open>door_number\<close> that is not a number is
  compared after \<open>ToNumber\<close>, and for the string \<open>abc\<close> that is \<open>NaN\<close>: both range
  comparisons are false, the request passes the validation and the insert statement is
  sent. The database cannot read \<open>abc\<close> as an integer, the query throws, and the
  answer is 500, the store error, not 400. For the string \<open>2_7\<close> the database reads the
  integer 27 and refuses it by the \<open>CHECK\<close> constraint after it drew an id: the answer
  is again 500, and the state is not the one before the request, since the sequence has
  advanced. A number outside 1 to 26 is refused with 400 and the state untouched.
\<close>

theorem post_events_malformed_door_number:
  "post_events init_db 1759485600000 body_abc =
     (init_db, \<lparr>status = 500, payload = Error ''Failed to create event''\<rparr>)
   \<and> post_events init_db 1759485600000 body_2_7 =
     (init_db\<lparr>events_id_seq := 2\<rparr>, \<lparr>status = 500, payload = Error ''Failed to create event''\<rparr>)
   \<and> post_events init_db 1759485600000 body_27 =
     (init_db, \<lparr>status = 400, payload = Error ''door_number must be between 1 and 26''\<rparr>)"
  by code_simp

theorem post_events_malformed_door_number_witness:
  "status (snd (post_events init_db 1759485600000 body_abc)) = 500
   \<and> fst (post_events init_db 1759485600000 body_2_7) \<noteq> init_db
   \<and> status (snd (post_events init_db 1759485600000 body_2_7)) = 500"
  using post_events_malformed_door_number by (simp add: init_db_def)

text \<open>
  Claim C9. The handler reads \<open>door_number\<close> and \<open>event_type\<close> from the body and
  nothing else: two record requests that agree on these two members, whatever
  \<open>timestamp_utc\<close> either of them carries, yield the same database state and the same
  response. When the request is accepted, the one row appended to the table has the
  server time as its \<open>timestamp_utc\<close> and its \<open>created_at\<close>, and the response returns
  that row's four columns.
\<close>

theorem post_events_server_time:
  assumes "body_door_number b1 = body_door_number b2"
    and "body_event_type b1 = body_event_type b2"
  shows "post_events d now b1 = post_events d now b2
       \<and> (status (snd (post_events d now b1)) = 201 \<longrightarrow>
            (\<exists>r. events (fst (post_events d now b1)) = events d @ [r]
                 \<and> payload (snd (post_events d now b1)) = Event (returning r)
                 \<and> timestamp_utc r = now \<and> created_at r = now))"
proof
  show "post_events d now b1 = post_events d now b2"
    using assms by (simp add: post_events_def)
next
  show "status (snd (post_events d now b1)) = 201 \<longrightarrow>
            (\<exists>r. events (fst (post_events d now b1)) = events d @ [r]
                 \<and> payload (snd (post_events d now b1)) = Event (returning r)
                 \<and> timestamp_utc r = now \<and> created_at r = now)"
    using post_events_outcome [of d now b1]
    by (auto simp: returning_def)
qed

theorem post_events_server_time_witness:
  "post_events init_db 1759485600000 body_5_A_IN_backdated
     = post_events init_db 1759485600000 body_5_A_IN
   \<and> map timestamp_utc (events (fst (post_events init_db 1759485600000 body_5_A_IN_backdated)))
     = [1759485600000]"
proof -
  have h: "body_door_number body_5_A_IN_backdated = body_door_number body_5_A_IN"
    "body_event_type body_5_A_IN_backdated = body_event_type body_5_A_IN"
    by (simp_all add: body_5_A_IN_def body_5_A_IN_backdated_def)
  have s: "status (snd (post_events init_db 1759485600000 body_5_A_IN_backdated)) = 201"
    by (simp add: post_events_accepts [where n = 5 and t = "''A_IN''"] body_5_A_IN_backdated_def)
  from post_events_server_time [OF h, of init_db 1759485600000] s show ?thesis
    by (auto simp: init_db_def)
qed

subsection \<open>Undoing an event\<close>




lemma events_update_deleted_at:
  "events (fst (update_deleted_at d now i)) =
     map (\<lambda>r. if event_id r = i \<and> deleted_at r = None then r\<lparr>deleted_at := Some now\<rparr> else r) (events d)"
  by (simp add: update_deleted_at_def Let_def)

lemma seq_update_deleted_at: "events_id_seq (fst (update_deleted_at d now i)) = events_id_seq d"
  by (simp add: update_deleted_at_def Let_def)

lemma snd_update_deleted_at:
  "snd (update_deleted_at d now i) =
     map event_id (filter (\<lambda>r. event_id r = i \<and> deleted_at r = None) (events d))"
  by (simp add: update_deleted_at_def Let_def)



lemma undo_by_id_fst: "fst (undo_by_id d now i) = fst (update_deleted_at d now i)"
  by (simp add: undo_by_id_def split: prod.splits)

lemma undo_by_id_status:
  "status (snd (undo_by_id d now i)) =
     (if \<exists>r \<in> set (events d). event_id r = i \<and> deleted_at r = None then 204 else 404)"
proof -
  have "(snd (update_deleted_at d now i) = []) = (\<not> (\<exists>r \<in> set (events d). event_id r = i \<and> deleted_at r = None))"
    unfolding snd_update_deleted_at by (simp only: map_is_Nil_conv filter_empty_conv) blast
  then show ?thesis
    by (cases "update_deleted_at d now i") (auto simp: undo_by_id_def)
qed





lemma delete_events_id_Some: "int4in s = Some i \<Longrightarrow> delete_events_id d now s = undo_by_id d now i"
  by (simp add: delete_events_id_def)

lemma delete_events_id_None:
  "int4in s = None \<Longrightarrow>
     delete_events_id d now s = (d, \<lparr>status = 500, payload = Error ''Failed to delete event''\<rparr>)"
  by (simp add: delete_events_id_def)



lemma int4in_examples:
  "int4in ''2'' = Some 2" "int4in ''7'' = Some 7" "int4in ''+2'' = Some 2"
  "int4in ''abc'' = None" "int4in ''1'' = Some 1"
  by code_simp+


subsection \<open>Retention cleanup\<close>

lemma events_delete_older:
  "events (fst (delete_older d now days)) =
     filter (\<lambda>r. now - days_ms days \<le> created_at r) (events d)"
  by (simp add: delete_older_def Let_def not_less)

lemma seq_delete_older: "events_id_seq (fst (delete_older d now days)) = events_id_seq d"
  by (simp add: delete_older_def Let_def)

lemma snd_delete_older:
  "snd (delete_older d now days) =
     length (filter (\<lambda>r. created_at r < now - days_ms days) (events d))"
  by (simp add: delete_older_def Let_def)

lemma post_cleanup_eq:
  "post_cleanup d now days =
     (fst (delete_older d now days),
      \<lparr>status = 200, payload = DeletedCount (snd (delete_older d now days))\<rparr>)"
  by (simp add: post_cleanup_def split: prod.splits)




lemma post_cleanup_nothing:
  "post_cleanup d now days = (d, \<lparr>status = 200, payload = DeletedCount 0\<rparr>)
     \<longleftrightarrow> (\<forall>r \<in> set (events d). now - days_ms days \<le> created_at r)"
proof
  assume "post_cleanup d now days = (d, \<lparr>status = 200, payload = DeletedCount 0\<rparr>)"
  then have "filter (\<lambda>r. created_at r < now - days_ms days) (events d) = []"
    by (simp add: post_cleanup_eq snd_delete_older)
  then show "\<forall>r \<in> set (events d). now - days_ms days \<le> created_at r"
    by (simp add: filter_empty_conv not_less)
next
  assume a: "\<forall>r \<in> set (events d). now - days_ms days \<le> created_at r"
  then have "filter (\<lambda>r. \<not> created_at r < now - days_ms days) (events d) = events d"
    by (simp add: not_less)
  moreover from a have "filter (\<lambda>r. created_at r < now - days_ms days) (events d) = []"
    by (simp add: filter_empty_conv not_less)
  ultimately show "post_cleanup d now days = (d, \<lparr>status = 200, payload = DeletedCount 0\<rparr>)"
    by (simp add: post_cleanup_def delete_older_def Let_def)
qed

text \<open>
  Claim C6, as first stated, fails: each run of the statement evaluates \<open>NOW()\<close> afresh,
  so the cutoff of the second run is later than that of the first, and a row that was
  just young enough for the first run may be too old for the second. The row 3 of
  \<open>week_table\<close> was created exactly 7 days before the first cleanup, which keeps it; a
  second cleanup one millisecond later, with the same retention and no request in
  between, removes it and answers a count of 1.
\<close>

theorem cleanup_twice_later_counterexample:
  "payload (snd (post_cleanup week_table 1759485600000 7)) = DeletedCount 2
   \<and> map event_id (events (fst (post_cleanup week_table 1759485600000 7))) = [3, 4, 5]
   \<and> payload (snd (post_cleanup (fst (post_cleanup week_table 1759485600000 7)) 1759485600001 7))
       = DeletedCount 1
   \<and> map event_id (events (fst (post_cleanup (fst (post_cleanup week_table 1759485600000 7))
         1759485600001 7))) = [4, 5]"
  by (simp add: post_cleanup_def delete_older_def week_table_def days_ms_def Let_def)

text \<open>
  Claim C6, amended. A second cleanup with the same retention and nothing inserted in
  between removes exactly the rows of the original table whose \<open>created_at\<close> lies
  between the two cutoffs, from the first (included) to the second (excluded), and
  answers their number. It removes nothing, answering 0 and leaving the database state
  as the first cleanup left it, exactly when no row that the first cleanup kept is older
  than the second cutoff; that is so when both run at the same server time.
\<close>

theorem cleanup_twice:
  "snd (post_cleanup (fst (post_cleanup d now days)) now' days) =
     \<lparr>status = 200,
      payload = DeletedCount (length (filter
        (\<lambda>r. now - days_ms days \<le> created_at r \<and> created_at r < now' - days_ms days)
        (events d)))\<rparr>
   \<and> (post_cleanup (fst (post_cleanup d now days)) now' days =
         (fst (post_cleanup d now days), \<lparr>status = 200, payload = DeletedCount 0\<rparr>)
       \<longleftrightarrow> (\<forall>r \<in> set (events d). now - days_ms days \<le> created_at r \<longrightarrow>
                                      now' - days_ms days \<le> created_at r))
   \<and> post_cleanup (fst (post_cleanup d now days)) now days =
       (fst (post_cleanup d now days), \<lparr>status = 200, payload = DeletedCount 0\<rparr>)"
proof -
  let ?d1 = "fst (post_cleanup d now days)"
  have ev: "events ?d1 = filter (\<lambda>r. now - days_ms days \<le> created_at r) (events d)"
    by (simp add: post_cleanup_eq events_delete_older)
  have later: "snd (delete_older ?d1 now' days) = length (filter
        (\<lambda>r. now - days_ms days \<le> created_at r \<and> created_at r < now' - days_ms days)
        (events d))"
    by (simp add: snd_delete_older ev conj_commute)
  have count: "snd (post_cleanup ?d1 now' days) =
     \<lparr>status = 200,
      payload = DeletedCount (length (filter
        (\<lambda>r. now - days_ms days \<le> created_at r \<and> created_at r < now' - days_ms days)
        (events d)))\<rparr>"
    by (simp add: post_cleanup_eq [of ?d1] later)
  have zero: "post_cleanup ?d1 now' days = (?d1, \<lparr>status = 200, payload = DeletedCount 0\<rparr>)
       \<longleftrightarrow> (\<forall>r \<in> set (events d). now - days_ms days \<le> created_at r \<longrightarrow>
                                      now' - days_ms days \<le> created_at r)"
    unfolding post_cleanup_nothing [of ?d1] ev by auto
  have same: "post_cleanup ?d1 now days = (?d1, \<lparr>status = 200, payload = DeletedCount 0\<rparr>)"
    unfolding post_cleanup_nothing [of ?d1] ev by simp
  from count zero same show ?thesis
    by (intro conjI)
qed

theorem cleanup_twice_witness:
  "post_cleanup (fst (post_cleanup week_table 1759485600000 7)) 1759485600000 7 =
     (fst (post_cleanup week_table 1759485600000 7), \<lparr>status = 200, payload = DeletedCount 0\<rparr>)
   \<and> payload (snd (post_cleanup week_table 1759485600000 7)) = DeletedCount 2
   \<and> payload (snd (post_cleanup (fst (post_cleanup week_table 1759485600000 7)) 1759572000000 7))
       = DeletedCount 1"
proof -
  have first: "payload (snd (post_cleanup week_table 1759485600000 7)) = DeletedCount 2"
    by (simp add: post_cleanup_eq snd_delete_older week_table_def days_ms_def)
  have kept: "\<forall>r \<in> set (events week_table).
      1759485600000 - days_ms 7 \<le> created_at r \<longrightarrow> 1759485600000 - days_ms 7 \<le> created_at r"
    by simp
  have between: "length (filter
        (\<lambda>r. 1759485600000 - days_ms 7 \<le> created_at r \<and> created_at r < 1759572000000 - days_ms 7)
        (events week_table)) = 1"
    by (simp add: week_table_def days_ms_def)
  note now = cleanup_twice [of week_table 1759485600000 7 1759485600000]
  note later = cleanup_twice [of week_table 1759485600000 7 1759572000000]
  from now kept have "post_cleanup (fst (post_cleanup week_table 1759485600000 7)) 1759485600000 7 =
     (fst (post_cleanup week_table 1759485600000 7), \<lparr>status = 200, payload = DeletedCount 0\<rparr>)"
    by blast
  moreover from later between
  have "payload (snd (post_cleanup (fst (post_cleanup week_table 1759485600000 7)) 1759572000000 7))
       = DeletedCount 1"
    by simp
  ultimately show ?thesis
    using first by (intro conjI)
qed

subsection \<open>Listing recent events\<close>

lemma timestamp_utc_returning: "timestamp_utc (returning r) = timestamp_utc r"
  by (simp add: returning_def)

lemma event_id_returning: "event_id (returning r) = event_id r"
  by (simp add: returning_def)

lemma order_by_sorted:
  "sorted_wrt (\<lambda>a b. timestamp_utc b \<le> timestamp_utc a) (order_by_timestamp_utc_desc rs)"
proof -
  have "sorted (map (\<lambda>r. - timestamp_utc r) (sort_key (\<lambda>r. - timestamp_utc r) rs))"
    by (rule sorted_sort_key)
  then show ?thesis
    by (simp add: order_by_timestamp_utc_desc_def sorted_map)
qed

lemma order_by_mset: "mset (order_by_timestamp_utc_desc rs) = mset rs"
  by (simp add: order_by_timestamp_utc_desc_def)

lemma order_by_set: "set (order_by_timestamp_utc_desc rs) = set rs"
  by (simp add: order_by_timestamp_utc_desc_def)

lemma order_by_length: "length (order_by_timestamp_utc_desc rs) = length rs"
  by (simp add: order_by_timestamp_utc_desc_def)

lemma select_export_sorted:
  "sorted_wrt (\<lambda>a b. timestamp_utc b \<le> timestamp_utc a) (select_export d)"
  using order_by_sorted [of "filter (\<lambda>r. deleted_at r = None) (events d)"]
  by (simp add: select_export_def sorted_wrt_map timestamp_utc_returning)

lemma select_export_mset:
  "mset (select_export d) = mset (map returning (filter (\<lambda>r. deleted_at r = None) (events d)))"
  by (simp add: select_export_def order_by_mset)

lemma select_export_length:
  "length (select_export d) = length (filter (\<lambda>r. deleted_at r = None) (events d))"
  by (simp add: select_export_def order_by_length)

lemma select_recent_take:
  "0 \<le> n \<Longrightarrow> n \<le> 9223372036854775807 \<Longrightarrow>
   select_recent d n = Inr (take (nat n) (select_export d))"
  by (simp add: select_recent_def select_export_def take_map)

lemma get_events_recent_nonneg:
  "0 \<le> recent_limit q \<Longrightarrow> recent_limit q \<le> 9223372036854775807 \<Longrightarrow>
   get_events_recent d q =
     \<lparr>status = 200, payload = Events (take (nat (recent_limit q)) (select_export d))\<rparr>"
  by (simp add: get_events_recent_def select_recent_take)

lemma get_events_recent_negative:
  "recent_limit q < 0 \<Longrightarrow>
   get_events_recent d q = \<lparr>status = 500, payload = Error ''Failed to fetch events''\<rparr>"
  by (simp add: get_events_recent_def select_recent_def)

lemma parseInt_undefined: "parseInt ''undefined'' = None"
  by (simp add: parseInt_def js_white_space_def is_radix_digit_def digit_of_def)

lemma parseInt_10: "parseInt ''10'' = Some 10"
  by (simp add: parseInt_def js_white_space_def is_radix_digit_def digit_of_def)

lemma recent_limit_10: "recent_limit (Some ''10'') = 10"
  by (simp add: recent_limit_def parseInt_10)

lemma parseInt_abc: "parseInt ''abc'' = None"
  by (simp add: parseInt_def js_white_space_def is_radix_digit_def digit_of_def)

lemma parseInt_0: "parseInt ''0'' = Some 0"
  by (simp add: parseInt_def js_white_space_def is_radix_digit_def digit_of_def)

lemma parseInt_minus_5: "parseInt ''-5'' = Some (- 5)"
  by (simp add: parseInt_def js_white_space_def is_radix_digit_def digit_of_def)

lemma parseInt_25: "parseInt ''25'' = Some 25"
  by (simp add: parseInt_def js_white_space_def is_radix_digit_def digit_of_def)

lemma parseInt_billion: "parseInt ''1000000000'' = Some 1000000000"
  by (simp add: parseInt_def js_white_space_def is_radix_digit_def digit_of_def)

lemma dozen_table_active:
  "filter (\<lambda>r. deleted_at r = None) (events dozen_table) = events dozen_table"
  by (simp add: dozen_table_def)

lemma dozen_table_length: "length (select_export dozen_table) = 12"
  by (simp add: select_export_length dozen_table_active) (simp add: dozen_table_def)

text \<open>
  Claim C10. When the \<open>limit\<close> parameter is absent, or \<open>parseInt\<close> reads no number
  from it, or reads 0, the limit is 10 and the response is the one for \<open>limit=10\<close>:
  status 200 with the first ten active events. When \<open>parseInt\<close> reads a negative
  integer (one that JavaScript holds exactly), that integer is the limit, and it is the
  parameter of the query as it stands.
\<close>

theorem recent_limit_falsy_or_negative:
  "(q = None \<or> (\<exists>s. q = Some s \<and> (parseInt s = None \<or> parseInt s = Some 0)) \<longrightarrow>
      recent_limit q = 10
      \<and> get_events_recent d q = get_events_recent d (Some ''10'')
      \<and> get_events_recent d q = \<lparr>status = 200, payload = Events (take 10 (select_export d))\<rparr>)
   \<and> (\<forall>s n. parseInt s = Some n \<and> n < 0 \<and> - 9007199254740992 \<le> n \<longrightarrow>
         recent_limit (Some s) = n
         \<and> get_events_recent d (Some s) =
             (case select_recent d n of
                Inr rows \<Rightarrow> \<lparr>status = 200, payload = Events rows\<rparr>
              | Inl e \<Rightarrow> \<lparr>status = 500, payload = Error ''Failed to fetch events''\<rparr>))"
proof (intro conjI impI allI)
  assume "q = None \<or> (\<exists>s. q = Some s \<and> (parseInt s = None \<or> parseInt s = Some 0))"
  then show ten: "recent_limit q = 10"
    by (auto simp: recent_limit_def parseInt_undefined)
  then show "get_events_recent d q = get_events_recent d (Some ''10'')"
    by (simp add: get_events_recent_def recent_limit_10)
  from ten show "get_events_recent d q = \<lparr>status = 200, payload = Events (take 10 (select_export d))\<rparr>"
    by (simp add: get_events_recent_nonneg)
next
  fix s n assume a: "parseInt s = Some n \<and> n < 0 \<and> - 9007199254740992 \<le> n"
  then show l: "recent_limit (Some s) = n"
    by (simp add: recent_limit_def)
  then show "get_events_recent d (Some s) =
             (case select_recent d n of
                Inr rows \<Rightarrow> \<lparr>status = 200, payload = Events rows\<rparr>
              | Inl e \<Rightarrow> \<lparr>status = 500, payload = Error ''Failed to fetch events''\<rparr>)"
    by (simp add: get_events_recent_def)
qed

theorem recent_limit_falsy_or_negative_witness:
  "get_events_recent dozen_table None =
     \<lparr>status = 200, payload = Events (take 10 (select_export dozen_table))\<rparr>
   \<and> get_events_recent dozen_table (Some ''abc'') = get_events_recent dozen_table (Some ''10'')
   \<and> get_events_recent dozen_table (Some ''0'') = get_events_recent dozen_table (Some ''10'')
   \<and> length (take 10 (select_export dozen_table)) = 10
   \<and> recent_limit (Some ''-5'') = - 5
   \<and> status (get_events_recent dozen_table (Some ''-5'')) = 500"
proof -
  note t = recent_limit_falsy_or_negative
  have 1: "get_events_recent dozen_table None =
     \<lparr>status = 200, payload = Events (take 10 (select_export dozen_table))\<rparr>"
    using t [of None dozen_table] by blast
  have 2: "get_events_recent dozen_table (Some ''abc'') = get_events_recent dozen_table (Some ''10'')"
    using t [of "Some ''abc''" dozen_table] parseInt_abc by blast
  have 3: "get_events_recent dozen_table (Some ''0'') = get_events_recent dozen_table (Some ''10'')"
    using t [of "Some ''0''" dozen_table] parseInt_0 by blast
  have 4: "length (take 10 (select_export dozen_table)) = 10"
    by (simp add: dozen_table_length)
  have 5: "recent_limit (Some ''-5'') = - 5"
    using t [of None dozen_table] parseInt_minus_5 by force
  then have 6: "status (get_events_recent dozen_table (Some ''-5'')) = 500"
    by (simp add: get_events_recent_negative)
  from 1 2 3 4 5 6 show ?thesis by (intro conjI)
qed

text \<open>
  Claim C8, as stated, fails: the handler enforces no bound on the limit. The text
  \<open>1000000000\<close> is read as the limit 1000000000 and handed to the query unchanged, so
  that a table of twelve active events is returned whole; the text \<open>-5\<close> is handed to
  the query as -5, which the database refuses, and the handler answers 500.
\<close>

theorem recent_limit_unbounded_counterexample:
  "recent_limit (Some ''1000000000'') = 1000000000
   \<and> get_events_recent dozen_table (Some ''1000000000'') =
       \<lparr>status = 200, payload = Events (select_export dozen_table)\<rparr>
   \<and> length (select_export dozen_table) = 12
   \<and> recent_limit (Some ''-5'') = - 5
   \<and> get_events_recent dozen_table (Some ''-5'') =
       \<lparr>status = 500, payload = Error ''Failed to fetch events''\<rparr>"
proof -
  have l: "recent_limit (Some ''1000000000'') = 1000000000"
    by (simp add: recent_limit_def parseInt_billion)
  have m: "recent_limit (Some ''-5'') = - 5"
    by (simp add: recent_limit_def parseInt_minus_5)
  have "get_events_recent dozen_table (Some ''1000000000'') =
       \<lparr>status = 200, payload = Events (select_export dozen_table)\<rparr>"
    by (simp add: get_events_recent_nonneg l dozen_table_length)
  moreover have "get_events_recent dozen_table (Some ''-5'') =
       \<lparr>status = 500, payload = Error ''Failed to fetch events''\<rparr>"
    by (simp add: get_events_recent_negative m)
  ultimately show ?thesis using l m dozen_table_length by (intro conjI)
qed

text \<open>
  Claim C8, amended. For every positive limit, up to the largest integer that JavaScript
  holds exactly, the response is status 200 with the first \<open>limit\<close> entries of the
  list of all active events ordered by \<open>timestamp_utc\<close> descending: that list is
  sorted and holds each active row's four columns exactly once. The limit is 10 when the
  parameter is absent, and the integer that \<open>parseInt\<close> reads whenever that is
  positive; the handler applies no upper bound to it.
\<close>

theorem recent_positive_limit:
  assumes "0 < recent_limit q" and "recent_limit q \<le> 9007199254740992"
  shows "get_events_recent d q =
           \<lparr>status = 200, payload = Events (take (nat (recent_limit q)) (select_export d))\<rparr>
       \<and> sorted_wrt (\<lambda>a b. timestamp_utc b \<le> timestamp_utc a) (select_export d)
       \<and> mset (select_export d) =
           mset (map returning (filter (\<lambda>r. deleted_at r = None) (events d)))
       \<and> recent_limit None = 10
       \<and> (\<forall>s n. parseInt s = Some n \<and> 0 < n \<and> n \<le> 9007199254740992 \<longrightarrow>
             recent_limit (Some s) = n)"
proof -
  have "recent_limit None = 10"
    by (simp add: recent_limit_def parseInt_undefined)
  moreover have "\<forall>s n. parseInt s = Some n \<and> 0 < n \<and> n \<le> 9007199254740992 \<longrightarrow>
             recent_limit (Some s) = n"
    by (simp add: recent_limit_def)
  moreover have "get_events_recent d q =
           \<lparr>status = 200, payload = Events (take (nat (recent_limit q)) (select_export d))\<rparr>"
    using assms by (simp add: get_events_recent_nonneg)
  ultimately show ?thesis
    using select_export_sorted [of d] select_export_mset [of d] by (intro conjI)
qed

theorem recent_positive_limit_witness:
  "get_events_recent dozen_table (Some ''25'') =
     \<lparr>status = 200, payload = Events (select_export dozen_table)\<rparr>
   \<and> get_events_recent dozen_table None =
     \<lparr>status = 200, payload = Events (take 10 (select_export dozen_table))\<rparr>
   \<and> recent_limit (Some ''25'') = 25"
proof -
  have l: "recent_limit (Some ''25'') = 25"
    by (simp add: recent_limit_def parseInt_25)
  have n: "recent_limit None = 10"
    by (simp add: recent_limit_def parseInt_undefined)
  have "get_events_recent dozen_table (Some ''25'') =
     \<lparr>status = 200, payload = Events (select_export dozen_table)\<rparr>"
    using recent_positive_limit [of "Some ''25''" dozen_table] l
    by (simp add: dozen_table_length)
  moreover have "get_events_recent dozen_table None =
     \<lparr>status = 200, payload = Events (take 10 (select_export dozen_table))\<rparr>"
    using recent_positive_limit [of None dozen_table] n by simp
  ultimately show ?thesis using l by (intro conjI)
qed


subsection \<open>The last event of a button\<close>

lemma hd_order_by:
  assumes "rs \<noteq> []"
  shows "hd (order_by_timestamp_utc_desc rs) \<in> set rs
       \<and> (\<forall>r' \<in> set rs. timestamp_utc r' \<le> timestamp_utc (hd (order_by_timestamp_utc_desc rs)))"
proof -
  let ?s = "order_by_timestamp_utc_desc rs"
  from assms have ne: "?s \<noteq> []"
    using order_by_length [of rs] by auto
  then obtain x xs where s: "?s = x # xs"
    by (cases ?s) auto
  have "x \<in> set rs"
    using order_by_set [of rs] s by auto
  moreover have "\<forall>r' \<in> set rs. timestamp_utc r' \<le> timestamp_utc x"
    using order_by_sorted [of rs] order_by_set [of rs] s by auto
  ultimately show ?thesis using s by simp
qed

lemma select_last_empty:
  assumes "\<not> (\<exists>r \<in> set (events d). door_number r = dn \<and> event_type r = et \<and> deleted_at r = None)"
  shows "select_last d dn et = []"
proof -
  have "filter (\<lambda>r. door_number r = dn \<and> event_type r = et \<and> deleted_at r = None) (events d) = []"
    using assms by (simp only: filter_empty_conv) blast
  then show ?thesis
    by (simp add: select_last_def order_by_timestamp_utc_desc_def)
qed

lemma select_last_some:
  assumes "\<exists>r \<in> set (events d). door_number r = dn \<and> event_type r = et \<and> deleted_at r = None"
  shows "\<exists>r \<in> set (events d). door_number r = dn \<and> event_type r = et \<and> deleted_at r = None
           \<and> (\<forall>r' \<in> set (events d).
                 door_number r' = dn \<and> event_type r' = et \<and> deleted_at r' = None
                 \<longrightarrow> timestamp_utc r' \<le> timestamp_utc r)
           \<and> select_last d dn et = [returning r]"
proof -
  let ?m = "filter (\<lambda>r. door_number r = dn \<and> event_type r = et \<and> deleted_at r = None) (events d)"
  let ?r = "hd (order_by_timestamp_utc_desc ?m)"
  from assms have ne: "?m \<noteq> []"
    by (simp only: filter_empty_conv) blast
  note h = hd_order_by [OF ne]
  have "order_by_timestamp_utc_desc ?m \<noteq> []"
    using ne order_by_length [of ?m] by auto
  then have "take 1 (order_by_timestamp_utc_desc ?m) = [?r]"
    by (cases "order_by_timestamp_utc_desc ?m") auto
  then have sel: "select_last d dn et = [returning ?r]"
    by (simp add: select_last_def)
  from h have "?r \<in> set ?m" by blast
  then have mem: "?r \<in> set (events d)" "door_number ?r = dn" "event_type ?r = et" "deleted_at ?r = None"
    by auto
  from h have "\<forall>r' \<in> set (events d).
                 door_number r' = dn \<and> event_type r' = et \<and> deleted_at r' = None
                 \<longrightarrow> timestamp_utc r' \<le> timestamp_utc ?r"
    by auto
  with mem sel show ?thesis by blast
qed

lemma list_all2_map_on:
  "(\<And>x. x \<in> set xs \<Longrightarrow> g x = h x) \<Longrightarrow> list_all2 (\<lambda>x y. y = h x) xs (map g xs)"
  by (induction xs) auto

lemma primary_key_row_eq:
  assumes "primary_key d" "r \<in> set (events d)" "x \<in> set (events d)" "event_id x = event_id r"
  shows "x = r"
proof -
  from assms(1) have "inj_on event_id (set (events d))"
    by (simp add: primary_key_def distinct_map)
  with assms(2-4) show ?thesis by (auto dest: inj_onD)
qed

lemma undo_by_id_one_row:
  assumes "primary_key d" "r \<in> set (events d)" "deleted_at r = None"
  shows "snd (undo_by_id d now (event_id r)) = \<lparr>status = 204, payload = NoBody\<rparr>"
    and "list_all2 (\<lambda>x x'. x' = (if x = r then x\<lparr>deleted_at := Some now\<rparr> else x))
           (events d) (events (fst (undo_by_id d now (event_id r))))"
proof -
  have "snd (update_deleted_at d now (event_id r)) \<noteq> []"
    unfolding snd_update_deleted_at using assms(2,3)
    by (simp only: map_is_Nil_conv filter_empty_conv) blast
  then show "snd (undo_by_id d now (event_id r)) = \<lparr>status = 204, payload = NoBody\<rparr>"
    by (cases "update_deleted_at d now (event_id r)") (simp add: undo_by_id_def)
  have "(if event_id x = event_id r \<and> deleted_at x = None then x\<lparr>deleted_at := Some now\<rparr> else x)
      = (if x = r then x\<lparr>deleted_at := Some now\<rparr> else x)" if "x \<in> set (events d)" for x
    using primary_key_row_eq [OF assms(1,2) that] assms(3) by auto
  then show "list_all2 (\<lambda>x x'. x' = (if x = r then x\<lparr>deleted_at := Some now\<rparr> else x))
           (events d) (events (fst (undo_by_id d now (event_id r))))"
    unfolding undo_by_id_fst events_update_deleted_at by (rule list_all2_map_on)
qed


lemma get_events_last_none:
  assumes "et \<noteq> []"
    and "\<not> (\<exists>r \<in> set (events d). door_number r = dn \<and> event_type r = et \<and> deleted_at r = None)"
  shows "get_events_last d (Some dn) (Some et) =
           \<lparr>status = 404, payload = Error ''No events found for this button''\<rparr>"
  using assms(1) select_last_empty [OF assms(2)]
  by (simp add: get_events_last_def js_not_string_def)

lemma get_events_last_row:
  assumes "et \<noteq> []" and "select_last d dn et = [e]"
  shows "get_events_last d (Some dn) (Some et) = \<lparr>status = 200, payload = Event e\<rparr>"
  using assms by (simp add: get_events_last_def js_not_string_def)

lemma door5_twice_primary_key: "primary_key door5_twice"
  by (simp add: primary_key_def door5_twice_def)

lemma door5_twice_last:
  "get_events_last door5_twice (Some 5) (Some ''A_IN'') =
     \<lparr>status = 200,
      payload = Event \<lparr>event_id = 1, door_number = 5, event_type = ''A_IN'',
                       timestamp_utc = 1759485600000\<rparr>\<rparr>"
  by (simp add: get_events_last_def js_not_string_def select_last_def
      order_by_timestamp_utc_desc_def door5_twice_def returning_def)

lemma door5_twice_recorded:
  "fst (run init_db [(1759485600000, Record body_5_A_IN), (1759485600000, Record body_5_A_IN)])
     = door5_twice"
  by (simp add: post_events_accepts [where n = 5 and t = "''A_IN''"] body_5_A_IN_def
      init_db_def door5_twice_def)

text \<open>
  Among rows with equal timestamps the query returns the one the table yields first:
  with the two rows of \<open>door5_twice\<close> in the opposite order it returns id 2.
\<close>

lemma last_follows_table_order:
  "get_events_last (door5_twice\<lparr>events := rev (events door5_twice)\<rparr>) (Some 5) (Some ''A_IN'') =
     \<lparr>status = 200,
      payload = Event \<lparr>event_id = 2, door_number = 5, event_type = ''A_IN'',
                       timestamp_utc = 1759485600000\<rparr>\<rparr>"
  by (simp add: get_events_last_def js_not_string_def select_last_def
      order_by_timestamp_utc_desc_def door5_twice_def returning_def)

text \<open>
  Claim C1, as stated, fails: the query orders by \<open>timestamp_utc\<close> alone. Two record
  requests for door 5, \<open>A_IN\<close>, served at the same server time give the rows with ids 1
  and 2 and one timestamp. The last-event query returns id 1, not the greater id 2, and
  undoing the last event soft-deletes row 1 and leaves row 2 active.
\<close>

theorem last_ignores_id_counterexample:
  "fst (run init_db [(1759485600000, Record body_5_A_IN), (1759485600000, Record body_5_A_IN)])
     = door5_twice
   \<and> map event_id (events door5_twice) = [1, 2]
   \<and> map timestamp_utc (events door5_twice) = [1759485600000, 1759485600000]
   \<and> get_events_last door5_twice (Some 5) (Some ''A_IN'') =
       \<lparr>status = 200,
        payload = Event \<lparr>event_id = 1, door_number = 5, event_type = ''A_IN'',
                         timestamp_utc = 1759485600000\<rparr>\<rparr>
   \<and> snd (undo_last door5_twice 1759485660000 5 ''A_IN'') = \<lparr>status = 204, payload = NoBody\<rparr>
   \<and> map deleted_at (events (fst (undo_last door5_twice 1759485660000 5 ''A_IN'')))
       = [Some 1759485660000, None]"
proof -
  have u: "undo_last door5_twice 1759485660000 5 ''A_IN'' =
      undo_by_id door5_twice 1759485660000 1"
    by (simp add: undo_last_def door5_twice_last)
  have 1: "snd (undo_last door5_twice 1759485660000 5 ''A_IN'') = \<lparr>status = 204, payload = NoBody\<rparr>"
    unfolding u by (simp add: undo_by_id_def update_deleted_at_def door5_twice_def)
  have 2: "map deleted_at (events (fst (undo_last door5_twice 1759485660000 5 ''A_IN'')))
       = [Some 1759485660000, None]"
    unfolding u undo_by_id_fst events_update_deleted_at by (simp add: door5_twice_def)
  have 3: "map event_id (events door5_twice) = [1, 2]"
    by (simp add: door5_twice_def)
  have 4: "map timestamp_utc (events door5_twice) = [1759485600000, 1759485600000]"
    by (simp add: door5_twice_def)
  from door5_twice_recorded 3 4 door5_twice_last 1 2 show ?thesis by (intro conjI)
qed

text \<open>
  Claim C1, amended. On a table whose ids are a primary key, for a door number and a
  non-empty event type: when some active row has that pair, the last-event query returns
  the four columns of an active row of that pair whose \<open>timestamp_utc\<close> no other
  active row of the pair exceeds, and undoing the last event answers 204 and sets
  \<open>deleted_at\<close> of that row and of no other. When no active row has the pair, both
  answer 404 and the database state is unchanged.
\<close>

theorem last_greatest_timestamp:
  assumes "primary_key d" and "et \<noteq> []"
  shows "if \<exists>r \<in> set (events d). door_number r = dn \<and> event_type r = et \<and> deleted_at r = None
         then \<exists>r \<in> set (events d).
                door_number r = dn \<and> event_type r = et \<and> deleted_at r = None
                \<and> (\<forall>r' \<in> set (events d).
                      door_number r' = dn \<and> event_type r' = et \<and> deleted_at r' = None
                      \<longrightarrow> timestamp_utc r' \<le> timestamp_utc r)
                \<and> get_events_last d (Some dn) (Some et) =
                    \<lparr>status = 200, payload = Event (returning r)\<rparr>
                \<and> snd (undo_last d now dn et) = \<lparr>status = 204, payload = NoBody\<rparr>
                \<and> list_all2 (\<lambda>x x'. x' = (if x = r then x\<lparr>deleted_at := Some now\<rparr> else x))
                     (events d) (events (fst (undo_last d now dn et)))
         else get_events_last d (Some dn) (Some et) =
                \<lparr>status = 404, payload = Error ''No events found for this button''\<rparr>
              \<and> undo_last d now dn et =
                (d, \<lparr>status = 404, payload = Error ''No events found for this button''\<rparr>)"
proof (cases "\<exists>r \<in> set (events d). door_number r = dn \<and> event_type r = et \<and> deleted_at r = None")
  case True
  from select_last_some [OF True] obtain r where r: "r \<in> set (events d)"
      "door_number r = dn" "event_type r = et" "deleted_at r = None"
      "\<forall>r' \<in> set (events d).
          door_number r' = dn \<and> event_type r' = et \<and> deleted_at r' = None
          \<longrightarrow> timestamp_utc r' \<le> timestamp_utc r"
      "select_last d dn et = [returning r]"
    by blast
  have g: "get_events_last d (Some dn) (Some et) = \<lparr>status = 200, payload = Event (returning r)\<rparr>"
    by (rule get_events_last_row [OF assms(2) r(6)])
  have u: "undo_last d now dn et = undo_by_id d now (event_id r)"
    by (simp add: undo_last_def g event_id_returning)
  note one = undo_by_id_one_row [OF assms(1) r(1) r(4), of now, folded u]
  from r(1-5) g one have "\<exists>r \<in> set (events d).
                door_number r = dn \<and> event_type r = et \<and> deleted_at r = None
                \<and> (\<forall>r' \<in> set (events d).
                      door_number r' = dn \<and> event_type r' = et \<and> deleted_at r' = None
                      \<longrightarrow> timestamp_utc r' \<le> timestamp_utc r)
                \<and> get_events_last d (Some dn) (Some et) =
                    \<lparr>status = 200, payload = Event (returning r)\<rparr>
                \<and> snd (undo_last d now dn et) = \<lparr>status = 204, payload = NoBody\<rparr>
                \<and> list_all2 (\<lambda>x x'. x' = (if x = r then x\<lparr>deleted_at := Some now\<rparr> else x))
                     (events d) (events (fst (undo_last d now dn et)))"
    by (intro bexI [of _ r] conjI)
  with True show ?thesis by (simp only: if_True)
next
  case False
  have g: "get_events_last d (Some dn) (Some et) =
                \<lparr>status = 404, payload = Error ''No events found for this button''\<rparr>"
    by (rule get_events_last_none [OF assms(2) False])
  then have "undo_last d now dn et =
                (d, \<lparr>status = 404, payload = Error ''No events found for this button''\<rparr>)"
    by (simp add: undo_last_def)
  with g False show ?thesis by (simp only: if_False simp_thms)
qed


theorem last_greatest_timestamp_witness:
  "payload (get_events_last week_table (Some 5) (Some ''A_IN'')) =
     Event \<lparr>event_id = 4, door_number = 5, event_type = ''A_IN'',
            timestamp_utc = 1759485600000 - 6 * 86400000\<rparr>
   \<and> snd (undo_last week_table 1759485600000 5 ''A_IN'') = \<lparr>status = 204, payload = NoBody\<rparr>
   \<and> undo_last week_table 1759485600000 9 ''A_IN'' =
       (week_table, \<lparr>status = 404, payload = Error ''No events found for this button''\<rparr>)"
proof -
  have pk: "primary_key week_table"
    by (simp add: primary_key_def week_table_def)
  have ne: "''A_IN'' \<noteq> []"
    by simp
  have ex: "\<exists>r \<in> set (events week_table).
              door_number r = 5 \<and> event_type r = ''A_IN'' \<and> deleted_at r = None"
    by (simp add: week_table_def)
  have nex: "\<not> (\<exists>r \<in> set (events week_table).
              door_number r = 9 \<and> event_type r = ''A_IN'' \<and> deleted_at r = None)"
    by (simp add: week_table_def)
  have 1: "payload (get_events_last week_table (Some 5) (Some ''A_IN'')) =
     Event \<lparr>event_id = 4, door_number = 5, event_type = ''A_IN'',
            timestamp_utc = 1759485600000 - 6 * 86400000\<rparr>"
    by (simp add: get_events_last_def js_not_string_def select_last_def
        order_by_timestamp_utc_desc_def week_table_def returning_def)
  have 2: "snd (undo_last week_table 1759485600000 5 ''A_IN'') = \<lparr>status = 204, payload = NoBody\<rparr>"
    using last_greatest_timestamp [OF pk ne, of 5 1759485600000] ex
    by (simp only: if_True) blast
  have 3: "undo_last week_table 1759485600000 9 ''A_IN'' =
       (week_table, \<lparr>status = 404, payload = Error ''No events found for this button''\<rparr>)"
    using last_greatest_timestamp [OF pk ne, of 9 1759485600000] nex
    by (simp only: if_False)
  from 1 2 3 show ?thesis by (intro conjI)
qed


subsection \<open>The state machine of an event\<close>

lemma find_map_key:
  "(\<And>x. k (g x) = k x) \<Longrightarrow>
   find (\<lambda>r. k r = i) (map g xs) = map_option g (find (\<lambda>r. k r = i) xs)"
  by (induction xs) auto

lemma find_filter_distinct:
  "distinct (map k xs) \<Longrightarrow>
   find (\<lambda>r. k r = i) (filter K xs) =
     (case find (\<lambda>r. k r = i) xs of None \<Rightarrow> None | Some r \<Rightarrow> if K r then Some r else None)"
proof (induction xs)
  case Nil
  then show ?case by simp
next
  case (Cons x xs)
  show ?case
  proof (cases "k x = i")
    case True
    with Cons.prems have "\<not> (\<exists>y. y \<in> set (filter K xs) \<and> k y = i)"
      by (auto simp: image_iff)
    then have "find (\<lambda>r. k r = i) (filter K xs) = None"
      by (simp only: find_None_iff not_False_eq_True)
    with True show ?thesis by simp
  next
    case False
    with Cons show ?thesis by simp
  qed
qed

lemma find_snoc:
  "find P (xs @ [y]) =
     (case find P xs of Some r \<Rightarrow> Some r | None \<Rightarrow> if P y then Some y else None)"
  by (induction xs) auto

lemma find_SomeD: "find P xs = Some r \<Longrightarrow> r \<in> set xs \<and> P r"
  by (induction xs) (auto split: if_splits)

lemma transition_refl: "transition q s s"
  by (cases q; cases s) simp_all

lemma primary_key_insert:
  assumes "primary_key d"
  shows "primary_key (d\<lparr>events := events d @ [\<lparr>event_id = events_id_seq d, door_number = n,
               event_type = t, timestamp_utc = now, created_at = now, deleted_at = None\<rparr>],
           events_id_seq := events_id_seq d + 1\<rparr>)"
  using assms by (auto simp: primary_key_def)

lemma map_key_map: "(\<And>x. k (g x) = k x) \<Longrightarrow> map k (map g xs) = map k xs"
  by (induction xs) auto

lemma ball_key_map:
  "(\<And>x. k (g x) = k x) \<Longrightarrow> (\<forall>r \<in> set (map g xs). P (k r)) = (\<forall>r \<in> set xs. P (k r))"
  by (induction xs) auto

lemma primary_key_update_deleted_at:
  assumes "primary_key d"
  shows "primary_key (fst (update_deleted_at d now i))"
proof -
  let ?g = "\<lambda>r::row. if event_id r = i \<and> deleted_at r = None then r\<lparr>deleted_at := Some now\<rparr> else r"
  have id: "event_id (?g r) = event_id r" for r by simp
  have 1: "map event_id (map ?g (events d)) = map event_id (events d)"
    by (rule map_key_map [where k = event_id and g = ?g, OF id])
  have 2: "(\<forall>r \<in> set (map ?g (events d)). event_id r < events_id_seq d)
         = (\<forall>r \<in> set (events d). event_id r < events_id_seq d)"
    by (rule ball_key_map [where k = event_id and g = ?g and P = "\<lambda>k. k < events_id_seq d", OF id])
  show ?thesis
    using assms
    unfolding primary_key_def events_update_deleted_at seq_update_deleted_at 1 2 .
qed

lemma primary_key_delete_older:
  assumes "primary_key d"
  shows "primary_key (fst (delete_older d now days))"
  using assms unfolding primary_key_def events_delete_older seq_delete_older
  by (simp add: distinct_map_filter)


lemma event_state_insert:
  assumes "primary_key d"
  shows "event_state (d\<lparr>events := events d @ [\<lparr>event_id = events_id_seq d, door_number = n,
               event_type = t, timestamp_utc = now, created_at = now, deleted_at = None\<rparr>],
           events_id_seq := events_id_seq d + 1\<rparr>) i =
         (if i = events_id_seq d then Active else event_state d i)"
    and "event_state d (events_id_seq d) = Unassigned"
proof -
  have none: "find (\<lambda>r. event_id r = events_id_seq d) (events d) = None"
    using assms by (simp only: find_None_iff primary_key_def) fastforce
  then show "event_state d (events_id_seq d) = Unassigned"
    by (simp add: event_state_def)
  show "event_state (d\<lparr>events := events d @ [\<lparr>event_id = events_id_seq d, door_number = n,
               event_type = t, timestamp_utc = now, created_at = now, deleted_at = None\<rparr>],
           events_id_seq := events_id_seq d + 1\<rparr>) i =
         (if i = events_id_seq d then Active else event_state d i)"
  proof (cases "i = events_id_seq d")
    case True
    with none show ?thesis by (simp add: event_state_def find_snoc)
  next
    case False
    then show ?thesis
      by (cases "find (\<lambda>r. event_id r = i) (events d)") (auto simp: event_state_def find_snoc)
  qed
qed

lemma event_state_update_deleted_at:
  "event_state (fst (update_deleted_at d now j)) i =
     (if i = j \<and> event_state d i = Active then Deleted else event_state d i)"
proof -
  let ?g = "\<lambda>r::row. if event_id r = j \<and> deleted_at r = None then r\<lparr>deleted_at := Some now\<rparr> else r"
  have id: "event_id (?g r) = event_id r" for r by simp
  have f: "find (\<lambda>r. event_id r = i) (map ?g (events d))
         = map_option ?g (find (\<lambda>r. event_id r = i) (events d))"
    by (rule find_map_key [where k = event_id and g = ?g, OF id])
  show ?thesis
  proof (cases "find (\<lambda>r. event_id r = i) (events d)")
    case None
    then show ?thesis
      unfolding event_state_def events_update_deleted_at seq_update_deleted_at f by simp
  next
    case (Some r)
    then have "event_id r = i" by (auto dest: find_SomeD)
    with Some show ?thesis
      unfolding event_state_def events_update_deleted_at seq_update_deleted_at f by auto
  qed
qed

lemma event_state_delete_older:
  assumes "primary_key d"
  shows "event_state (fst (delete_older d now days)) i = event_state d i
       \<or> (event_state d i \<in> {Active, Deleted} \<and> event_state (fst (delete_older d now days)) i = Gone)"
proof -
  have f: "find (\<lambda>r. event_id r = i) (filter (\<lambda>r. now - days_ms days \<le> created_at r) (events d)) =
     (case find (\<lambda>r. event_id r = i) (events d) of
        None \<Rightarrow> None
      | Some r \<Rightarrow> if now - days_ms days \<le> created_at r then Some r else None)"
    using assms by (intro find_filter_distinct) (simp add: primary_key_def)
  show ?thesis
  proof (cases "find (\<lambda>r. event_id r = i) (events d)")
    case None
    then show ?thesis
      unfolding event_state_def events_delete_older seq_delete_older f by simp
  next
    case (Some r)
    then have "r \<in> set (events d)" "event_id r = i" by (auto dest: find_SomeD)
    with assms have "i < events_id_seq d" by (auto simp: primary_key_def)
    with Some show ?thesis
      unfolding event_state_def events_delete_older seq_delete_older f by auto
  qed
qed

lemma primary_key_nextval:
  "primary_key d \<Longrightarrow> primary_key (d\<lparr>events_id_seq := events_id_seq d + 1\<rparr>)"
  by (auto simp: primary_key_def)

lemma event_state_nextval:
  assumes "primary_key d"
  shows "event_state (d\<lparr>events_id_seq := events_id_seq d + 1\<rparr>) i =
         (if i = events_id_seq d then Gone else event_state d i)"
proof -
  have none: "find (\<lambda>r. event_id r = events_id_seq d) (events d) = None"
    using assms by (simp only: find_None_iff primary_key_def) fastforce
  show ?thesis
  proof (cases "i = events_id_seq d")
    case True
    with none show ?thesis by (simp add: event_state_def)
  next
    case False
    then show ?thesis
      by (cases "find (\<lambda>r. event_id r = i) (events d)") (auto simp: event_state_def)
  qed
qed

lemma post_events_fst:
  "fst (post_events d now b) = d
   \<or> fst (post_events d now b) = d\<lparr>events_id_seq := events_id_seq d + 1\<rparr>
   \<or> (\<exists>n t. fst (post_events d now b) =
         d\<lparr>events := events d @ [\<lparr>event_id = events_id_seq d, door_number = n,
               event_type = t, timestamp_utc = now, created_at = now, deleted_at = None\<rparr>],
           events_id_seq := events_id_seq d + 1\<rparr>)"
proof -
  from post_events_outcome [of d now b] show ?thesis
  proof (elim disjE exE)
    fix dn et
    assume "post_events d now b =
         (d\<lparr>events := events d @ [\<lparr>event_id = events_id_seq d, door_number = dn,
               event_type = et, timestamp_utc = now, created_at = now, deleted_at = None\<rparr>],
             events_id_seq := events_id_seq d + 1\<rparr>,
          \<lparr>status = 201, payload = Event \<lparr>event_id = events_id_seq d, door_number = dn,
               event_type = et, timestamp_utc = now\<rparr>\<rparr>)"
    then have "fst (post_events d now b) =
         d\<lparr>events := events d @ [\<lparr>event_id = events_id_seq d, door_number = dn,
               event_type = et, timestamp_utc = now, created_at = now, deleted_at = None\<rparr>],
           events_id_seq := events_id_seq d + 1\<rparr>"
      by simp
    then show ?thesis
      by blast
  qed simp_all
qed

lemma delete_events_id_fst:
  "fst (delete_events_id d now s) =
     (case int4in s of None \<Rightarrow> d | Some i \<Rightarrow> fst (update_deleted_at d now i))"
  by (simp add: delete_events_id_def undo_by_id_fst split: option.splits)

lemma serve_transition:
  assumes "primary_key d"
  shows "transition q (event_state d i) (event_state (fst (serve d now q)) i)"
proof (cases q)
  case (Record b)
  from post_events_fst [of d now b] show ?thesis
  proof (elim disjE exE)
    assume "fst (post_events d now b) = d"
    then show ?thesis using Record by (simp add: transition_refl)
  next
    assume "fst (post_events d now b) = d\<lparr>events_id_seq := events_id_seq d + 1\<rparr>"
    then show ?thesis
      using Record event_state_nextval [OF assms, of i] event_state_insert(2) [OF assms]
      by (simp add: transition_refl)
  next
    fix n t
    assume "fst (post_events d now b) =
         d\<lparr>events := events d @ [\<lparr>event_id = events_id_seq d, door_number = n,
               event_type = t, timestamp_utc = now, created_at = now, deleted_at = None\<rparr>],
           events_id_seq := events_id_seq d + 1\<rparr>"
    then show ?thesis
      using Record event_state_insert(1) [OF assms, of n t now i] event_state_insert(2) [OF assms]
      by (simp add: transition_refl)
  qed
next
  case (Undo s)
  then show ?thesis
    by (cases "int4in s")
      (auto simp: delete_events_id_fst event_state_update_deleted_at transition_refl)
next
  case (Cleanup days)
  have "fst (serve d now q) = fst (delete_older d now days)"
    using Cleanup by (simp add: post_cleanup_eq)
  with event_state_delete_older [OF assms, of now days i] Cleanup show ?thesis
    by (auto simp: transition_refl)
qed

lemma serve_primary_key:
  assumes "primary_key d"
  shows "primary_key (fst (serve d now q))"
proof (cases q)
  case (Record b)
  from post_events_fst [of d now b] show ?thesis
    using Record assms primary_key_insert [OF assms] primary_key_nextval [OF assms] by auto
next
  case (Undo s)
  then show ?thesis
    by (cases "int4in s")
      (simp_all add: delete_events_id_fst primary_key_update_deleted_at [OF assms] assms)
next
  case (Cleanup days)
  then show ?thesis
    by (simp add: post_cleanup_eq primary_key_delete_older [OF assms])
qed


lemma serve_rows_kept:
  assumes "primary_key d" "r \<in> set (events d)" "r' \<in> set (events (fst (serve d now q)))"
    and "event_id r' = event_id r"
  shows "r' = r \<or> ((\<exists>s. q = Undo s \<and> int4in s = Some (event_id r)) \<and> deleted_at r = None
                   \<and> r' = r\<lparr>deleted_at := Some now\<rparr>)"
proof (cases q)
  case (Record b)
  from post_events_fst [of d now b] show ?thesis
  proof (elim disjE exE)
    assume "fst (post_events d now b) = d"
    with assms Record show ?thesis
      by (auto intro: primary_key_row_eq)
  next
    assume "fst (post_events d now b) = d\<lparr>events_id_seq := events_id_seq d + 1\<rparr>"
    with assms Record show ?thesis
      by (auto intro: primary_key_row_eq)
  next
    fix n t
    assume e: "fst (post_events d now b) =
         d\<lparr>events := events d @ [\<lparr>event_id = events_id_seq d, door_number = n,
               event_type = t, timestamp_utc = now, created_at = now, deleted_at = None\<rparr>],
           events_id_seq := events_id_seq d + 1\<rparr>"
    from assms(1,2) have "event_id r < events_id_seq d"
      by (auto simp: primary_key_def)
    with assms(3,4) Record e have "r' \<in> set (events d)"
      by auto
    with assms show ?thesis
      by (auto intro: primary_key_row_eq)
  qed
next
  case (Undo s)
  show ?thesis
  proof (cases "int4in s")
    case None
    with assms(3) Undo have "r' \<in> set (events d)"
      by (simp add: delete_events_id_fst)
    with assms show ?thesis
      by (auto intro: primary_key_row_eq)
  next
    case (Some j)
    let ?g = "\<lambda>r::row. if event_id r = j \<and> deleted_at r = None then r\<lparr>deleted_at := Some now\<rparr> else r"
    from assms(3) Undo Some have "r' \<in> set (events (fst (update_deleted_at d now j)))"
      by (simp add: delete_events_id_fst)
    then have "r' \<in> ?g ` set (events d)"
      unfolding events_update_deleted_at set_map .
    then obtain x where x: "x \<in> set (events d)" "r' = ?g x"
      by blast
    then have "event_id x = event_id r"
      using assms(4) by (auto split: if_splits)
    with assms(1,2) x(1) have "x = r"
      by (auto intro: primary_key_row_eq)
    with x(2) Undo Some show ?thesis
      by (auto split: if_splits)
  qed
next
  case (Cleanup days)
  with assms(3) have "r' \<in> set (events d)"
    by (simp add: post_cleanup_eq events_delete_older)
  with assms show ?thesis
    by (auto intro: primary_key_row_eq)
qed

lemma transition_from_deleted: "transition q Deleted s \<Longrightarrow> s \<in> {Deleted, Gone}"
  by (cases q; cases s) simp_all

lemma transition_from_gone: "transition q Gone s \<Longrightarrow> s = Gone"
  by (cases q; cases s) simp_all

lemma fst_run_Cons: "fst (run d ((now, q) # qs)) = fst (run (fst (serve d now q)) qs)"
  by (simp split: prod.splits)

lemma run_primary_key: "primary_key d \<Longrightarrow> primary_key (fst (run d qs))"
proof (induction qs arbitrary: d)
  case Nil
  then show ?case by simp
next
  case (Cons a qs)
  obtain now q where a: "a = (now, q)" by (cases a)
  from Cons.IH [OF serve_primary_key [OF Cons.prems, of now q]] show ?case
    unfolding a fst_run_Cons .
qed

lemma run_stays_gone:
  "primary_key d \<Longrightarrow> event_state d i = Gone \<Longrightarrow> event_state (fst (run d qs)) i = Gone"
proof (induction qs arbitrary: d)
  case Nil
  then show ?case by simp
next
  case (Cons a qs)
  obtain now q where a: "a = (now, q)" by (cases a)
  from serve_transition [OF Cons.prems(1), of q i now] Cons.prems(2)
  have "event_state (fst (serve d now q)) i = Gone"
    by (simp add: transition_from_gone)
  from Cons.IH [OF serve_primary_key [OF Cons.prems(1), of now q] this] show ?case
    unfolding a fst_run_Cons .
qed

lemma run_stays_deleted:
  "primary_key d \<Longrightarrow> event_state d i \<in> {Deleted, Gone} \<Longrightarrow>
   event_state (fst (run d qs)) i \<in> {Deleted, Gone}"
proof (induction qs arbitrary: d)
  case Nil
  then show ?case by simp
next
  case (Cons a qs)
  obtain now q where a: "a = (now, q)" by (cases a)
  from serve_transition [OF Cons.prems(1), of q i now] Cons.prems(2)
  have "event_state (fst (serve d now q)) i \<in> {Deleted, Gone}"
    by (auto dest: transition_from_deleted transition_from_gone)
  from Cons.IH [OF serve_primary_key [OF Cons.prems(1), of now q] this] show ?case
    unfolding a fst_run_Cons .
qed

text \<open>
  Claim C4. On a table whose ids are a primary key drawn from the sequence, each of the
  three operations keeps that constraint and moves every event id along the state
  machine only: record takes an unassigned id to active (or, when the database refuses
  the row after drawing the id, to gone), undo takes an active id to deleted, cleanup
  takes an active or deleted id to gone, and every other id keeps its state. A row
  that is still in the table after the operation is the row it was, except that undo of
  its id sets the \<open>deleted_at\<close> of an active row to the server time; no
  other column changes and no \<open>deleted_at\<close> is cleared. Over any run of operations an
  id that is deleted stays deleted or gone, and an id that is gone stays gone.
\<close>

theorem serve_state_machine:
  assumes "primary_key d"
  shows "primary_key (fst (serve d now q))
       \<and> (\<forall>i. transition q (event_state d i) (event_state (fst (serve d now q)) i))
       \<and> (\<forall>r \<in> set (events d). \<forall>r' \<in> set (events (fst (serve d now q))).
             event_id r' = event_id r \<longrightarrow>
             r' = r \<or> ((\<exists>s. q = Undo s \<and> int4in s = Some (event_id r)) \<and> deleted_at r = None
                       \<and> r' = r\<lparr>deleted_at := Some now\<rparr>))
       \<and> (\<forall>qs i. event_state d i \<in> {Deleted, Gone} \<longrightarrow>
             event_state (fst (run d qs)) i \<in> {Deleted, Gone})
       \<and> (\<forall>qs i. event_state d i = Gone \<longrightarrow> event_state (fst (run d qs)) i = Gone)"
proof (intro conjI allI ballI impI)
  show "primary_key (fst (serve d now q))"
    by (rule serve_primary_key [OF assms])
  show "transition q (event_state d i) (event_state (fst (serve d now q)) i)" for i
    by (rule serve_transition [OF assms])
  show "r' = r \<or> ((\<exists>s. q = Undo s \<and> int4in s = Some (event_id r)) \<and> deleted_at r = None
                 \<and> r' = r\<lparr>deleted_at := Some now\<rparr>)"
    if "r \<in> set (events d)" "r' \<in> set (events (fst (serve d now q)))" "event_id r' = event_id r"
    for r r'
    by (rule serve_rows_kept [OF assms that])
  show "event_state (fst (run d qs)) i \<in> {Deleted, Gone}"
    if "event_state d i \<in> {Deleted, Gone}" for qs i
    by (rule run_stays_deleted [OF assms that])
  show "event_state (fst (run d qs)) i = Gone" if "event_state d i = Gone" for qs i
    by (rule run_stays_gone [OF assms that])
qed

lemma undone_table_reached:
  "fst (run init_db [(1759485600000, Record body_5_A_IN), (1759485660000, Undo ''1'')]) = undone_table"
  by (simp add: post_events_accepts [where n = 5 and t = "''A_IN''"] body_5_A_IN_def
      init_db_def undone_table_def delete_events_id_def undo_by_id_def update_deleted_at_def
      int4in_examples)

theorem serve_state_machine_witness:
  "primary_key undone_table
   \<and> event_state undone_table 1 = Deleted
   \<and> event_state (fst (serve undone_table 1760176800000 (Cleanup 7))) 1 = Gone
   \<and> transition (Cleanup 7) (event_state undone_table 1)
        (event_state (fst (serve undone_table 1760176800000 (Cleanup 7))) 1)
   \<and> event_state (fst (run undone_table
         [(1760176800000, Cleanup 7), (1760176860000, Record body_5_A_IN)])) 1 \<in> {Deleted, Gone}
   \<and> map event_id (events (fst (run undone_table
         [(1760176800000, Cleanup 7), (1760176860000, Record body_5_A_IN)]))) = [2]"
proof -
  have pk: "primary_key undone_table"
    by (simp add: primary_key_def undone_table_def)
  note t = serve_state_machine [OF pk, of 1760176800000 "Cleanup 7"]
  have 1: "event_state undone_table 1 = Deleted"
    by (simp add: event_state_def undone_table_def)
  have 2: "event_state (fst (serve undone_table 1760176800000 (Cleanup 7))) 1 = Gone"
    by (simp add: post_cleanup_eq event_state_def events_delete_older seq_delete_older
        undone_table_def days_ms_def)
  have 3: "transition (Cleanup 7) (event_state undone_table 1)
        (event_state (fst (serve undone_table 1760176800000 (Cleanup 7))) 1)"
    using t by blast
  have 4: "event_state (fst (run undone_table
         [(1760176800000, Cleanup 7), (1760176860000, Record body_5_A_IN)])) 1 \<in> {Deleted, Gone}"
    using t 1 by blast
  have 5: "map event_id (events (fst (run undone_table
         [(1760176800000, Cleanup 7), (1760176860000, Record body_5_A_IN)]))) = [2]"
    by (simp add: post_cleanup_eq post_events_accepts [where n = 5 and t = "''A_IN''"]
        body_5_A_IN_def events_delete_older seq_delete_older undone_table_def days_ms_def
        split: prod.splits)
  from pk 1 2 3 4 5 show ?thesis by (intro conjI)
qed

subsection \<open>The CSV export\<close>

text \<open>The days from 1970 to a year, and the year of a day.\<close>

lemma div_succ:
  fixes x n :: int assumes "0 < n"
  shows "(x + 1) div n = x div n + (if (x + 1) mod n = 0 then 1 else 0)"
proof -
  define q r where "q = (x + 1) div n" and "r = (x + 1) mod n"
  have r: "0 \<le> r" "r < n" using assms by (simp_all add: r_def)
  have eq: "x + 1 = n * q + r" by (simp add: q_def r_def)
  show ?thesis
  proof (cases "r = 0")
    case True
    have "x = n * (q - 1) + (n - 1)" using eq True by (simp add: algebra_simps)
    from int_div_pos_eq [OF this] assms have "x div n = q - 1" by simp
    with True show ?thesis by (simp add: q_def r_def)
  next
    case False
    have "x = n * q + (r - 1)" using eq by simp
    from int_div_pos_eq [OF this] r False have "x div n = q" by simp
    with False show ?thesis by (simp add: q_def r_def)
  qed
qed

lemma step4: "(y - 1968) div 4 = (y - 1969) div 4 + (if y mod 4 = 0 then 1 else 0)" for y :: int
proof -
  have "(y - 1968) mod 4 = (y - 1968 mod 4) mod 4" by (rule mod_diff_right_eq [symmetric])
  then have "(y - 1968) mod 4 = y mod 4" by simp
  with div_succ [of 4 "y - 1969"] show ?thesis by simp
qed

lemma step100: "(y - 1900) div 100 = (y - 1901) div 100 + (if y mod 100 = 0 then 1 else 0)" for y :: int
proof -
  have "(y - 1900) mod 100 = (y - 1900 mod 100) mod 100" by (rule mod_diff_right_eq [symmetric])
  then have "(y - 1900) mod 100 = y mod 100" by simp
  with div_succ [of 100 "y - 1901"] show ?thesis by simp
qed

lemma step400: "(y - 1600) div 400 = (y - 1601) div 400 + (if y mod 400 = 0 then 1 else 0)" for y :: int
proof -
  have "(y - 1600) mod 400 = (y - 1600 mod 400) mod 400" by (rule mod_diff_right_eq [symmetric])
  then have "(y - 1600) mod 400 = y mod 400" by simp
  with div_succ [of 400 "y - 1601"] show ?thesis by simp
qed

lemma mod_100_4: "y mod 100 = 0 \<Longrightarrow> y mod 4 = 0" for y :: int
proof -
  assume a: "y mod 100 = 0"
  have "(4::int) dvd 100" by simp
  then have "y mod 100 mod 4 = y mod 4" by (rule mod_mod_cancel)
  with a show ?thesis by simp
qed

lemma mod_400_100: "y mod 400 = 0 \<Longrightarrow> y mod 100 = 0" for y :: int
proof -
  assume a: "y mod 400 = 0"
  have "(100::int) dvd 400" by simp
  then have "y mod 400 mod 100 = y mod 100" by (rule mod_mod_cancel)
  with a show ?thesis by simp
qed

lemma DayFromYear_Suc: "DayFromYear (y + 1) = DayFromYear y + DaysInYear y"
proof -
  have e: "y + 1 - 1969 = y - 1968" "y + 1 - 1901 = y - 1900" "y + 1 - 1601 = y - 1600"
    "y + 1 - 1970 = y - 1970 + 1"
    by simp_all
  show ?thesis
    unfolding DayFromYear_def DaysInYear_def e step4 step100 step400
    using mod_100_4 [of y] mod_400_100 [of y] by (simp add: algebra_simps)
qed

lemma DaysInYear_range: "DaysInYear y = 365 \<or> DaysInYear y = 366"
  by (simp add: DaysInYear_def)

lemma DaysInYear_leap:
  "DaysInYear y = 365 + (if y mod 4 = 0 \<and> (y mod 100 \<noteq> 0 \<or> y mod 400 = 0) then 1 else 0)"
  using mod_100_4 [of y] mod_400_100 [of y] by (auto simp: DaysInYear_def)

lemma DayFromYear_1970: "DayFromYear 1970 = 0"
  by (simp add: DayFromYear_def)

lemma DayFromYear_after: "DayFromYear (1970 + int k) \<le> 366 * int k"
proof (induction k)
  case 0
  then show ?case by (simp add: DayFromYear_1970)
next
  case (Suc k)
  have "DayFromYear (1970 + int (Suc k)) = DayFromYear (1970 + int k) + DaysInYear (1970 + int k)"
    using DayFromYear_Suc [of "1970 + int k"] by (simp add: add.assoc)
  with Suc DaysInYear_range [of "1970 + int k"] show ?case
    by auto
qed

lemma DayFromYear_before: "DayFromYear (1970 - int k) \<le> - 365 * int k"
proof (induction k)
  case 0
  then show ?case by (simp add: DayFromYear_1970)
next
  case (Suc k)
  have "1970 - int (Suc k) + 1 = 1970 - int k"
    by simp
  with DayFromYear_Suc [of "1970 - int (Suc k)"]
  have "DayFromYear (1970 - int k) = DayFromYear (1970 - int (Suc k)) + DaysInYear (1970 - int (Suc k))"
    by simp
  with Suc DaysInYear_range [of "1970 - int (Suc k)"] show ?case
    by auto
qed

lemma year_search_bounds:
  "DayFromYear y \<le> day \<Longrightarrow>
   DayFromYear (year_search y day) \<le> day \<and> day < DayFromYear (year_search y day + 1)"
proof (induction y day rule: year_search.induct)
  case (1 y day)
  show ?case
  proof (cases "DayFromYear (y + 1) \<le> day")
    case True
    from "1.IH" [OF True True] have
      "DayFromYear (year_search (y + 1) day) \<le> day \<and> day < DayFromYear (year_search (y + 1) day + 1)" .
    moreover from True have "year_search y day = year_search (y + 1) day"
      by (subst year_search.simps) simp
    ultimately show ?thesis by simp
  next
    case False
    then have "year_search y day = y"
      by (subst year_search.simps) simp
    with False "1.prems" show ?thesis by simp
  qed
qed

lemma start_year:
  "DayFromYear (1970 + (if 0 \<le> day then day div 366 else day div 365 - 1)) \<le> day"
proof (cases "0 \<le> day")
  case True
  then have "0 \<le> day div 366"
    by (simp add: pos_imp_zdiv_nonneg_iff)
  then obtain k where k: "day div 366 = int k"
    using nonneg_int_cases by blast
  have "366 * (day div 366) \<le> day"
    using div_mult_mod_eq [of day 366] pos_mod_sign [of 366 day] by simp
  with DayFromYear_after [of k] k True show ?thesis
    by simp
next
  case False
  then have "day div 365 < 0"
    by (simp add: div_neg_pos_less0)
  then have "0 \<le> 1 - day div 365"
    by simp
  then obtain k where k: "1 - day div 365 = int k"
    using nonneg_int_cases by blast
  then have y: "1970 + (day div 365 - 1) = 1970 - int k"
    by simp
  have "365 * (day div 365) \<le> day"
    using div_mult_mod_eq [of day 365] pos_mod_sign [of 365 day] by simp
  moreover have "- 365 * int k = 365 * (day div 365) - 365"
    using k by simp
  ultimately have "- 365 * int k \<le> day"
    by simp
  with DayFromYear_before [of k] False show ?thesis
    unfolding y [symmetric] by simp
qed

lemma YearFromTime_bounds:
  "DayFromYear (YearFromTime t) \<le> t div 86400000
   \<and> t div 86400000 < DayFromYear (YearFromTime t + 1)"
  unfolding YearFromTime_def Let_def by (rule year_search_bounds [OF start_year])

lemma DayWithinYear_range:
  "0 \<le> DayWithinYear t \<and> DayWithinYear t < 365 + InLeapYear t \<and> InLeapYear t \<in> {0, 1}"
  using YearFromTime_bounds [of t] DayFromYear_Suc [of "YearFromTime t"]
    DaysInYear_range [of "YearFromTime t"]
  by (auto simp: DayWithinYear_def InLeapYear_def)

text \<open>The month and the day of the month, from the day within the year.\<close>

lemma month_date:
  fixes dwy leap :: int
  assumes "0 \<le> dwy" "dwy < 365 + leap" "leap = 0 \<or> leap = 1"
    and m: "m = (if dwy < 31 then 0
      else if dwy < 59 + leap then 1
      else if dwy < 90 + leap then 2
      else if dwy < 120 + leap then 3
      else if dwy < 151 + leap then 4
      else if dwy < 181 + leap then 5
      else if dwy < 212 + leap then 6
      else if dwy < 243 + leap then 7
      else if dwy < 273 + leap then 8
      else if dwy < 304 + leap then 9
      else if dwy < 334 + leap then 10
      else 11)"
    and dd: "dd = (if m = 0 then dwy + 1
      else if m = 1 then dwy - 30
      else if m = 2 then dwy - 58 - leap
      else if m = 3 then dwy - 89 - leap
      else if m = 4 then dwy - 119 - leap
      else if m = 5 then dwy - 150 - leap
      else if m = 6 then dwy - 180 - leap
      else if m = 7 then dwy - 211 - leap
      else if m = 8 then dwy - 242 - leap
      else if m = 9 then dwy - 272 - leap
      else if m = 10 then dwy - 303 - leap
      else dwy - 333 - leap)"
  shows "0 \<le> m \<and> m \<le> 11 \<and> 1 \<le> dd
       \<and> dd \<le> [31, 28 + leap, 31, 30, 31, 30, 31, 31, 30, 31, 30, 31] ! nat m
       \<and> dwy = sum_list (take (nat m) [31, 28 + leap, 31, 30, 31, 30, 31, 31, 30, 31, 30, 31])
               + dd - 1"
proof -
  from assms(3) have l: "0 \<le> leap" "leap \<le> 1"
    by auto
  consider "dwy < 31"
    | "31 \<le> dwy" "dwy < 59 + leap"
    | "59 + leap \<le> dwy" "dwy < 90 + leap"
    | "90 + leap \<le> dwy" "dwy < 120 + leap"
    | "120 + leap \<le> dwy" "dwy < 151 + leap"
    | "151 + leap \<le> dwy" "dwy < 181 + leap"
    | "181 + leap \<le> dwy" "dwy < 212 + leap"
    | "212 + leap \<le> dwy" "dwy < 243 + leap"
    | "243 + leap \<le> dwy" "dwy < 273 + leap"
    | "273 + leap \<le> dwy" "dwy < 304 + leap"
    | "304 + leap \<le> dwy" "dwy < 334 + leap"
    | "334 + leap \<le> dwy"
    by linarith
  then show ?thesis
  proof cases
    case 1
    with l have "m = 0"
      unfolding m by simp
    with 1 assms(1,2) l show ?thesis
      unfolding dd by simp
  next
    case 2
    with l have "m = 1"
      unfolding m by simp
    with 2 assms(1,2) l show ?thesis
      unfolding dd by simp
  next
    case 3
    with l have "m = 2"
      unfolding m by simp
    with 3 assms(1,2) l show ?thesis
      unfolding dd by simp
  next
    case 4
    with l have "m = 3"
      unfolding m by simp
    with 4 assms(1,2) l show ?thesis
      unfolding dd by simp
  next
    case 5
    with l have "m = 4"
      unfolding m by simp
    with 5 assms(1,2) l show ?thesis
      unfolding dd by simp
  next
    case 6
    with l have "m = 5"
      unfolding m by simp
    with 6 assms(1,2) l show ?thesis
      unfolding dd by simp
  next
    case 7
    with l have "m = 6"
      unfolding m by simp
    with 7 assms(1,2) l show ?thesis
      unfolding dd by simp
  next
    case 8
    with l have "m = 7"
      unfolding m by simp
    with 8 assms(1,2) l show ?thesis
      unfolding dd by simp
  next
    case 9
    with l have "m = 8"
      unfolding m by simp
    with 9 assms(1,2) l show ?thesis
      unfolding dd by simp
  next
    case 10
    with l have "m = 9"
      unfolding m by simp
    with 10 assms(1,2) l show ?thesis
      unfolding dd by simp
  next
    case 11
    with l have "m = 10"
      unfolding m by simp
    with 11 assms(1,2) l show ?thesis
      unfolding dd by simp
  next
    case 12
    with l have "m = 11"
      unfolding m by simp
    with 12 assms(1,2) l show ?thesis
      unfolding dd by simp
  qed
qed

text \<open>Decimal digits.\<close>

lemma of_char_digit_char: "(of_char (digit_char k) :: int) = 48 + int (k mod 10)"
proof -
  have "(of_char (digit_char k) :: nat) = (48 + k mod 10) mod 256"
    unfolding digit_char_def by (rule of_char_of)
  moreover have "(48 + k mod 10) mod 256 = 48 + k mod 10"
    by simp
  ultimately have "int (of_char (digit_char k)) = 48 + int (k mod 10)"
    by simp
  then show ?thesis
    by (simp only: of_nat_of_char)
qed

lemma char_of_digits:
  "char_of (48::nat) = CHR ''0''" "char_of (49::nat) = CHR ''1''" "char_of (50::nat) = CHR ''2''"
  "char_of (51::nat) = CHR ''3''" "char_of (52::nat) = CHR ''4''" "char_of (53::nat) = CHR ''5''"
  "char_of (54::nat) = CHR ''6''" "char_of (55::nat) = CHR ''7''" "char_of (56::nat) = CHR ''8''"
  "char_of (57::nat) = CHR ''9''"
  by code_simp+

lemma digit_char_in: "digit_char k \<in> set ''0123456789''"
proof -
  have "k mod 10 < 10"
    by simp
  then have "k mod 10 = 0 \<or> k mod 10 = 1 \<or> k mod 10 = 2 \<or> k mod 10 = 3 \<or> k mod 10 = 4
      \<or> k mod 10 = 5 \<or> k mod 10 = 6 \<or> k mod 10 = 7 \<or> k mod 10 = 8 \<or> k mod 10 = 9"
    by arith
  then show ?thesis
    by (elim disjE) (simp_all add: digit_char_def char_of_digits)
qed

lemma digit_char_zero: "digit_char k = CHR ''0'' \<longleftrightarrow> k mod 10 = 0"
proof
  assume "digit_char k = CHR ''0''"
  then have "(of_char (digit_char k) :: int) = of_char CHR ''0''"
    by simp
  then show "k mod 10 = 0"
    unfolding of_char_digit_char by simp
next
  assume "k mod 10 = 0"
  then show "digit_char k = CHR ''0''"
    by (simp add: digit_char_def char_of_digits)
qed

lemma length_pad: "length (pad w n) = w"
  by (induction w arbitrary: n) simp_all

lemma pad_digits: "set (pad w n) \<subseteq> set ''0123456789''"
proof (induction w arbitrary: n)
  case 0
  then show ?case by simp
next
  case (Suc w)
  from Suc [of "n div 10"] digit_char_in [of "nat (n mod 10)"] show ?case
    by simp
qed

lemma pad_value:
  "0 \<le> n \<Longrightarrow> n < 10 ^ w \<Longrightarrow> foldl (\<lambda>a c. a * 10 + (of_char c - 48)) 0 (pad w n) = n"
proof (induction w arbitrary: n)
  case 0
  then show ?case by simp
next
  case (Suc w)
  define k :: int where "k = 10 ^ w"
  from Suc.prems have "n < 10 * k" "0 \<le> n"
    by (simp_all add: k_def)
  then have "0 \<le> n div 10" "n div 10 < k"
    by linarith+
  then have "foldl (\<lambda>a c. a * 10 + (of_char c - 48)) 0 (pad w (n div 10)) = n div 10"
    unfolding k_def by (rule Suc.IH)
  moreover have "int (nat (n mod 10) mod 10) = n mod 10"
    by simp
  ultimately show ?case
    by (simp add: of_char_digit_char)
qed

lemma decimal_small: "n < 10 \<Longrightarrow> decimal n = [digit_char n]"
  by (subst decimal.simps) simp

lemma decimal_large: "\<not> n < 10 \<Longrightarrow> decimal n = decimal (n div 10) @ [digit_char (n mod 10)]"
  by (subst decimal.simps) simp

lemma decimal_not_Nil: "decimal n \<noteq> []"
  by (cases "n < 10") (simp_all only: decimal_small decimal_large, simp_all)

lemma decimal_digits: "set (decimal n) \<subseteq> set ''0123456789''"
proof (induction n rule: decimal.induct)
  case (1 n)
  show ?case
  proof (cases "n < 10")
    case True
    with digit_char_in [of n] show ?thesis
      unfolding decimal_small [OF True] by simp
  next
    case False
    note ih = "1.IH" [OF False]
    from ih digit_char_in [of "n mod 10"] show ?thesis
      unfolding decimal_large [OF False] by (simp del: decimal.simps)
  qed
qed

lemma decimal_value: "foldl (\<lambda>a c. a * 10 + (of_char c - 48)) 0 (decimal n) = int n"
proof (induction n rule: decimal.induct)
  case (1 n)
  show ?case
  proof (cases "n < 10")
    case True
    then show ?thesis
      unfolding decimal_small [OF True] by (simp add: of_char_digit_char)
  next
    case False
    note ih = "1.IH" [OF False]
    have "n div 10 * 10 + n mod 10 = n"
      by simp
    then have "int (n div 10 * 10 + n mod 10) = int n"
      by (rule arg_cong)
    then have e: "int (n div 10) * 10 + int (n mod 10) = int n"
      by (simp only: of_nat_add of_nat_mult of_nat_numeral)
    show ?thesis
      unfolding decimal_large [OF False]
      by (simp add: ih of_char_digit_char e del: decimal.simps)
  qed
qed

lemma decimal_leading: "hd (decimal n) = CHR ''0'' \<longleftrightarrow> n = 0"
proof (induction n rule: decimal.induct)
  case (1 n)
  show ?case
  proof (cases "n < 10")
    case True
    then show ?thesis
      unfolding decimal_small [OF True] by (simp add: digit_char_zero)
  next
    case False
    note ih = "1.IH" [OF False]
    from False have "n div 10 \<noteq> 0" "n \<noteq> 0"
      by simp_all
    with ih decimal_not_Nil [of "n div 10"] show ?thesis
      unfolding decimal_large [OF False] by (simp del: decimal.simps)
  qed
qed

lemma number_to_string_nonneg:
  assumes "0 \<le> n"
  shows "number_to_string n \<noteq> []"
    and "set (number_to_string n) \<subseteq> set ''0123456789''"
    and "foldl (\<lambda>a c. a * 10 + (of_char c - 48)) 0 (number_to_string n) = n"
    and "hd (number_to_string n) = CHR ''0'' \<longleftrightarrow> n = 0"
  using assms decimal_not_Nil [of "nat n"] decimal_digits [of "nat n"]
    decimal_value [of "nat n"] decimal_leading [of "nat n"]
  by (simp_all add: number_to_string_def)

lemma number_to_string_neg: "n < 0 \<Longrightarrow> number_to_string n = CHR ''-'' # number_to_string (- n)"
  by (simp add: number_to_string_def)

text \<open>\<open>join\<close> puts the separator before every element but the first.\<close>

lemma join_concat:
  "join sep xs = (case xs of [] \<Rightarrow> [] | x # ys \<Rightarrow> x @ concat (map (\<lambda>y. sep @ y) ys))"
  by (induction sep xs rule: join.induct) simp_all

lemma civil_date:
  "0 \<le> MonthFromTime t \<and> MonthFromTime t \<le> 11 \<and> 1 \<le> DateFromTime t
   \<and> DateFromTime t \<le>
       [31, 28 + InLeapYear t, 31, 30, 31, 30, 31, 31, 30, 31, 30, 31] ! nat (MonthFromTime t)
   \<and> DayWithinYear t =
       sum_list (take (nat (MonthFromTime t))
         [31, 28 + InLeapYear t, 31, 30, 31, 30, 31, 31, 30, 31, 30, 31])
       + DateFromTime t - 1"
proof -
  from DayWithinYear_range [of t]
  have r: "0 \<le> DayWithinYear t" "DayWithinYear t < 365 + InLeapYear t"
    "InLeapYear t = 0 \<or> InLeapYear t = 1"
    by auto
  have m: "MonthFromTime t = (if DayWithinYear t < 31 then 0
      else if DayWithinYear t < 59 + InLeapYear t then 1
      else if DayWithinYear t < 90 + InLeapYear t then 2
      else if DayWithinYear t < 120 + InLeapYear t then 3
      else if DayWithinYear t < 151 + InLeapYear t then 4
      else if DayWithinYear t < 181 + InLeapYear t then 5
      else if DayWithinYear t < 212 + InLeapYear t then 6
      else if DayWithinYear t < 243 + InLeapYear t then 7
      else if DayWithinYear t < 273 + InLeapYear t then 8
      else if DayWithinYear t < 304 + InLeapYear t then 9
      else if DayWithinYear t < 334 + InLeapYear t then 10
      else 11)"
    unfolding MonthFromTime_def Let_def by (rule refl)
  have dd: "DateFromTime t = (if MonthFromTime t = 0 then DayWithinYear t + 1
      else if MonthFromTime t = 1 then DayWithinYear t - 30
      else if MonthFromTime t = 2 then DayWithinYear t - 58 - InLeapYear t
      else if MonthFromTime t = 3 then DayWithinYear t - 89 - InLeapYear t
      else if MonthFromTime t = 4 then DayWithinYear t - 119 - InLeapYear t
      else if MonthFromTime t = 5 then DayWithinYear t - 150 - InLeapYear t
      else if MonthFromTime t = 6 then DayWithinYear t - 180 - InLeapYear t
      else if MonthFromTime t = 7 then DayWithinYear t - 211 - InLeapYear t
      else if MonthFromTime t = 8 then DayWithinYear t - 242 - InLeapYear t
      else if MonthFromTime t = 9 then DayWithinYear t - 272 - InLeapYear t
      else if MonthFromTime t = 10 then DayWithinYear t - 303 - InLeapYear t
      else DayWithinYear t - 333 - InLeapYear t)"
    unfolding DateFromTime_def Let_def by (rule refl)
  show ?thesis
    by (rule month_date [OF r m dd])
qed

lemma InLeapYear_eq:
  "InLeapYear t =
     (if YearFromTime t mod 4 = 0 \<and> (YearFromTime t mod 100 \<noteq> 0 \<or> YearFromTime t mod 400 = 0)
      then 1 else 0)"
  unfolding InLeapYear_def DaysInYear_leap [of "YearFromTime t"] by simp

lemma calendar_date:
  "0 \<le> MonthFromTime t \<and> MonthFromTime t \<le> 11 \<and> 1 \<le> DateFromTime t
   \<and> DateFromTime t \<le>
       [31, 28 + (if YearFromTime t mod 4 = 0
                    \<and> (YearFromTime t mod 100 \<noteq> 0 \<or> YearFromTime t mod 400 = 0) then 1 else 0),
        31, 30, 31, 30, 31, 31, 30, 31, 30, 31] ! nat (MonthFromTime t)
   \<and> t div 86400000 =
       365 * (YearFromTime t - 1970) + (YearFromTime t - 1969) div 4
       - (YearFromTime t - 1901) div 100 + (YearFromTime t - 1601) div 400
       + sum_list (take (nat (MonthFromTime t))
           [31, 28 + (if YearFromTime t mod 4 = 0
                        \<and> (YearFromTime t mod 100 \<noteq> 0 \<or> YearFromTime t mod 400 = 0) then 1 else 0),
            31, 30, 31, 30, 31, 31, 30, 31, 30, 31])
       + DateFromTime t - 1"
proof -
  have "t div 86400000 = DayFromYear (YearFromTime t) + DayWithinYear t"
    by (simp add: DayWithinYear_def)
  then have d: "t div 86400000 =
       365 * (YearFromTime t - 1970) + (YearFromTime t - 1969) div 4
       - (YearFromTime t - 1901) div 100 + (YearFromTime t - 1601) div 400 + DayWithinYear t"
    by (simp only: DayFromYear_def)
  from civil_date [of t] show ?thesis
    unfolding d InLeapYear_eq [symmetric] by (simp only: add.assoc diff_conv_add_uminus simp_thms)
qed

lemma toISOString_fields:
  "toISOString t =
     (if 0 \<le> YearFromTime t \<and> YearFromTime t \<le> 9999 then pad 4 (YearFromTime t)
      else (if YearFromTime t < 0 then ''-'' else ''+'') @ pad 6 \<bar>YearFromTime t\<bar>)
     @ ''-'' @ pad 2 (MonthFromTime t + 1) @ ''-'' @ pad 2 (DateFromTime t)
     @ ''T'' @ pad 2 (t div 3600000 mod 24) @ '':'' @ pad 2 (t div 60000 mod 60)
     @ '':'' @ pad 2 (t div 1000 mod 60) @ ''.'' @ pad 3 (t mod 1000) @ ''Z''"
  unfolding toISOString_def Let_def HourFromTime_def MinFromTime_def SecFromTime_def
    msFromTime_def
  by (rule refl)

lemma toISOString_examples:
  "toISOString 0 = ''1970-01-01T00:00:00.000Z''"
  "toISOString 1759517123123 = ''2025-10-03T18:45:23.123Z''"
  "toISOString 951827696789 = ''2000-02-29T12:34:56.789Z''"
  "toISOString (- 1) = ''1969-12-31T23:59:59.999Z''"
  "toISOString 4102444799999 = ''2099-12-31T23:59:59.999Z''"
  by code_simp+

text \<open>The number of active rows over a run of record and undo requests.\<close>

lemma active_after_update:
  "length (filter (\<lambda>r. deleted_at r = None)
     (map (\<lambda>r. if event_id r = i \<and> deleted_at r = None then r\<lparr>deleted_at := Some now\<rparr> else r) xs))
   + length (filter (\<lambda>r. event_id r = i \<and> deleted_at r = None) xs)
   = length (filter (\<lambda>r::row. deleted_at r = None) xs)"
  by (induction xs) auto

lemma distinct_key_filter_le_1:
  "distinct (map k xs) \<Longrightarrow> length (filter (\<lambda>r. k r = i \<and> Q r) xs) \<le> 1"
proof (induction xs)
  case Nil
  then show ?case by simp
next
  case (Cons x xs)
  show ?case
  proof (cases "k x = i")
    case True
    with Cons.prems have "filter (\<lambda>r. k r = i \<and> Q r) xs = []"
      by (auto simp: filter_empty_conv image_iff)
    then show ?thesis by simp
  next
    case False
    with Cons show ?thesis by simp
  qed
qed

lemma hit_count:
  assumes "primary_key d"
  shows "length (filter (\<lambda>r. event_id r = i \<and> deleted_at r = None) (events d)) =
           (if \<exists>r \<in> set (events d). event_id r = i \<and> deleted_at r = None then 1 else 0)"
proof (cases "\<exists>r \<in> set (events d). event_id r = i \<and> deleted_at r = None")
  case True
  then have "filter (\<lambda>r. event_id r = i \<and> deleted_at r = None) (events d) \<noteq> []"
    by (simp only: filter_empty_conv) blast
  moreover from assms
  have "length (filter (\<lambda>r. event_id r = i \<and> deleted_at r = None) (events d)) \<le> 1"
    by (intro distinct_key_filter_le_1) (simp add: primary_key_def)
  ultimately have "length (filter (\<lambda>r. event_id r = i \<and> deleted_at r = None) (events d)) = 1"
    by (cases "filter (\<lambda>r. event_id r = i \<and> deleted_at r = None) (events d)") auto
  with True show ?thesis by simp
next
  case False
  then have "filter (\<lambda>r. event_id r = i \<and> deleted_at r = None) (events d) = []"
    by (simp only: filter_empty_conv) blast
  with False show ?thesis by simp
qed

lemma undo_by_id_active:
  assumes "primary_key d"
  shows "length (filter (\<lambda>r. deleted_at r = None) (events (fst (undo_by_id d now i))))
         + (if status (snd (undo_by_id d now i)) = 204 then 1 else 0)
         = length (filter (\<lambda>r. deleted_at r = None) (events d))"
proof -
  have "(if status (snd (undo_by_id d now i)) = 204 then 1 else 0) =
      length (filter (\<lambda>r. event_id r = i \<and> deleted_at r = None) (events d))"
    unfolding hit_count [OF assms] undo_by_id_status by simp
  then show ?thesis
    unfolding undo_by_id_fst events_update_deleted_at
    using active_after_update [of i now "events d"] by simp
qed

lemma delete_events_id_active:
  assumes "primary_key d"
  shows "length (filter (\<lambda>r. deleted_at r = None) (events (fst (delete_events_id d now s))))
         + (if status (snd (delete_events_id d now s)) = 204 then 1 else 0)
         = length (filter (\<lambda>r. deleted_at r = None) (events d))"
proof (cases "int4in s")
  case None
  then show ?thesis
    by (simp add: delete_events_id_None)
next
  case (Some i)
  then show ?thesis
    unfolding delete_events_id_Some [OF Some] by (simp only: undo_by_id_active [OF assms])
qed

lemma post_events_active:
  "length (filter (\<lambda>r. deleted_at r = None) (events (fst (post_events d now b))))
   = length (filter (\<lambda>r. deleted_at r = None) (events d))
     + (if status (snd (post_events d now b)) = 201 then 1 else 0)"
  using post_events_outcome [of d now b] by (elim disjE exE) simp_all

lemma post_events_status_not_204: "status (snd (post_events d now b)) \<noteq> 204"
  using post_events_outcome [of d now b] by (elim disjE exE) simp_all

lemma delete_events_id_status_not_201: "status (snd (delete_events_id d now s)) \<noteq> 201"
  by (cases "int4in s") (simp_all add: delete_events_id_None delete_events_id_Some undo_by_id_status)

lemma snd_run_Cons: "snd (run d ((now, q) # qs)) = snd (serve d now q) # snd (run (fst (serve d now q)) qs)"
  by (simp split: prod.splits)

lemma run_active_count:
  "primary_key d \<Longrightarrow> \<forall>(now, q) \<in> set qs. \<not> is_cleanup q \<Longrightarrow>
   length (filter (\<lambda>r. deleted_at r = None) (events (fst (run d qs))))
     + count_status 204 (snd (run d qs))
   = length (filter (\<lambda>r. deleted_at r = None) (events d)) + count_status 201 (snd (run d qs))"
proof (induction qs arbitrary: d)
  case Nil
  then show ?case by (simp add: count_status_def)
next
  case (Cons a qs)
  obtain now q where a: "a = (now, q)" by (cases a)
  from Cons.prems(2) a have nc: "\<not> is_cleanup q" and rest: "\<forall>(now, q) \<in> set qs. \<not> is_cleanup q"
    by auto
  note ih = Cons.IH [OF serve_primary_key [OF Cons.prems(1), of now q] rest]
  show ?case
  proof (cases q)
    case (Record b)
    with ih post_events_active [of d now b] post_events_status_not_204 [of d now b] show ?thesis
      unfolding a fst_run_Cons snd_run_Cons by (simp add: count_status_def)
  next
    case (Undo s)
    with ih delete_events_id_active [OF Cons.prems(1), of now s]
      delete_events_id_status_not_201 [of d now s] show ?thesis
      unfolding a fst_run_Cons snd_run_Cons by (simp add: count_status_def split: if_splits)
  next
    case (Cleanup days)
    with nc show ?thesis by simp
  qed
qed

lemma init_db_primary_key: "primary_key init_db"
  by (simp add: primary_key_def init_db_def)

lemma export_rows_length:
  "length (export_rows d) = length (filter (\<lambda>r. deleted_at r = None) (events d))"
  by (simp add: export_rows_def select_export_length)

lemma export_rows_run:
  assumes "\<forall>(now, q) \<in> set qs. \<not> is_cleanup q"
  shows "length (export_rows (fst (run init_db qs))) =
            count_status 201 (snd (run init_db qs)) - count_status 204 (snd (run init_db qs))"
proof -
  from run_active_count [OF init_db_primary_key assms]
  have "length (export_rows (fst (run init_db qs))) + count_status 204 (snd (run init_db qs))
      = count_status 201 (snd (run init_db qs))"
    by (simp add: export_rows_length init_db_def)
  then show ?thesis
    by arith
qed

lemma append_single: "(@) [c] = (#) c"
  by (rule ext) simp

lemma get_events_export_csv:
  "get_events_export d =
     \<lparr>status = 200,
      payload = Csv (''id,door_number,event_type,timestamp_utc'' @ [CHR 0x0A] @
        (case map (\<lambda>e. number_to_string (event_id e) @ '','' @ number_to_string (door_number e)
                         @ '','' @ event_type e @ '','' @ toISOString (timestamp_utc e))
                (select_export d) of
           [] \<Rightarrow> []
         | x # xs \<Rightarrow> x @ concat (map (\<lambda>y. CHR 0x0A # y) xs)))\<rparr>"
  unfolding get_events_export_def Let_def export_rows_def join_concat csv_row_def [abs_def]
    append_single
  by simp

lemma select_export_columns:
  "mset (select_export d) =
     mset (map (\<lambda>r. \<lparr>event_id = event_id r, door_number = door_number r,
                      event_type = event_type r, timestamp_utc = timestamp_utc r\<rparr>)
            (filter (\<lambda>r. deleted_at r = None) (events d)))"
  unfolding select_export_mset returning_def [abs_def] by (rule refl)

text \<open>
  Claim C7. The export answers 200 with the header line followed by one line per active
  event, each line after a line feed: the lines are the images, in order, of the list of
  all active events ordered by \<open>timestamp_utc\<close> descending. That list is sorted and
  holds the four columns of each active row exactly once. A line is the id, the door
  number, the event type and the timestamp, in this order, separated by commas. The id
  and the door number are written in decimal: digits without a leading zero whose value
  is the number, after a minus sign when it is negative. The timestamp is written by
  \<open>toISOString\<close> as year, month and day, \<open>T\<close>, the UTC time of day as hours, minutes,
  seconds and milliseconds, and \<open>Z\<close>, every field padded with zeros to its width; the
  year, the month and the day are those of the proleptic Gregorian calendar: the month
  is one of twelve, the day lies within the month (February having 29 days in a leap
  year), and the days from 1970-01-01 to that date are the whole days of the instant.
  After any run of record and undo requests from the empty table, the number of lines is
  the number of accepted records (201) minus the number of successful undos (204).
\<close>

theorem export_active_rows:
  "get_events_export d =
     \<lparr>status = 200,
      payload = Csv (''id,door_number,event_type,timestamp_utc'' @ [CHR 0x0A] @
        (case map (\<lambda>e. number_to_string (event_id e) @ '','' @ number_to_string (door_number e)
                         @ '','' @ event_type e @ '','' @ toISOString (timestamp_utc e))
                (select_export d) of
           [] \<Rightarrow> []
         | x # xs \<Rightarrow> x @ concat (map (\<lambda>y. CHR 0x0A # y) xs)))\<rparr>
   \<and> export_rows d =
       map (\<lambda>e. number_to_string (event_id e) @ '','' @ number_to_string (door_number e)
                  @ '','' @ event_type e @ '','' @ toISOString (timestamp_utc e))
         (select_export d)
   \<and> length (export_rows d) = length (filter (\<lambda>r. deleted_at r = None) (events d))
   \<and> mset (select_export d) =
       mset (map (\<lambda>r. \<lparr>event_id = event_id r, door_number = door_number r,
                        event_type = event_type r, timestamp_utc = timestamp_utc r\<rparr>)
              (filter (\<lambda>r. deleted_at r = None) (events d)))
   \<and> sorted_wrt (\<lambda>a b. timestamp_utc b \<le> timestamp_utc a) (select_export d)
   \<and> number_to_string 0 = ''0''
   \<and> (\<forall>n. 0 < n \<longrightarrow>
          set (number_to_string n) \<subseteq> set ''0123456789''
          \<and> hd (number_to_string n) \<noteq> CHR ''0''
          \<and> foldl (\<lambda>a c. a * 10 + (of_char c - 48)) 0 (number_to_string n) = n)
   \<and> (\<forall>n. n < 0 \<longrightarrow> number_to_string n = CHR ''-'' # number_to_string (- n))
   \<and> (\<forall>t. toISOString t =
          (if 0 \<le> YearFromTime t \<and> YearFromTime t \<le> 9999 then pad 4 (YearFromTime t)
           else (if YearFromTime t < 0 then ''-'' else ''+'') @ pad 6 \<bar>YearFromTime t\<bar>)
          @ ''-'' @ pad 2 (MonthFromTime t + 1) @ ''-'' @ pad 2 (DateFromTime t)
          @ ''T'' @ pad 2 (t div 3600000 mod 24) @ '':'' @ pad 2 (t div 60000 mod 60)
          @ '':'' @ pad 2 (t div 1000 mod 60) @ ''.'' @ pad 3 (t mod 1000) @ ''Z'')
   \<and> (\<forall>w n. 0 \<le> n \<and> n < 10 ^ w \<longrightarrow>
          length (pad w n) = w \<and> set (pad w n) \<subseteq> set ''0123456789''
          \<and> foldl (\<lambda>a c. a * 10 + (of_char c - 48)) 0 (pad w n) = n)
   \<and> (\<forall>t. 0 \<le> MonthFromTime t \<and> MonthFromTime t \<le> 11 \<and> 1 \<le> DateFromTime t
          \<and> DateFromTime t \<le>
              [31, 28 + (if YearFromTime t mod 4 = 0
                           \<and> (YearFromTime t mod 100 \<noteq> 0 \<or> YearFromTime t mod 400 = 0)
                         then 1 else 0),
               31, 30, 31, 30, 31, 31, 30, 31, 30, 31] ! nat (MonthFromTime t)
          \<and> t div 86400000 =
              365 * (YearFromTime t - 1970) + (YearFromTime t - 1969) div 4
              - (YearFromTime t - 1901) div 100 + (YearFromTime t - 1601) div 400
              + sum_list (take (nat (MonthFromTime t))
                  [31, 28 + (if YearFromTime t mod 4 = 0
                               \<and> (YearFromTime t mod 100 \<noteq> 0 \<or> YearFromTime t mod 400 = 0)
                             then 1 else 0),
                   31, 30, 31, 30, 31, 31, 30, 31, 30, 31])
              + DateFromTime t - 1)
   \<and> (\<forall>qs. (\<forall>(now, q) \<in> set qs. \<not> is_cleanup q) \<longrightarrow>
          length (export_rows (fst (run init_db qs))) =
            count_status 201 (snd (run init_db qs)) - count_status 204 (snd (run init_db qs)))"
proof -
  have rows: "export_rows d =
       map (\<lambda>e. number_to_string (event_id e) @ '','' @ number_to_string (door_number e)
                  @ '','' @ event_type e @ '','' @ toISOString (timestamp_utc e))
         (select_export d)"
    unfolding export_rows_def csv_row_def [abs_def] by (rule refl)
  have zero: "number_to_string 0 = ''0''"
    by code_simp
  have pos: "\<forall>n. 0 < n \<longrightarrow>
          set (number_to_string n) \<subseteq> set ''0123456789''
          \<and> hd (number_to_string n) \<noteq> CHR ''0''
          \<and> foldl (\<lambda>a c. a * 10 + (of_char c - 48)) 0 (number_to_string n) = n"
  proof (intro allI impI conjI)
    fix n :: int
    assume n: "0 < n"
    then have "0 \<le> n" by simp
    note f = number_to_string_nonneg [OF this]
    show "set (number_to_string n) \<subseteq> set ''0123456789''"
      by (rule f(2))
    show "hd (number_to_string n) \<noteq> CHR ''0''"
      using f(4) n by simp
    show "foldl (\<lambda>a c. a * 10 + (of_char c - 48)) 0 (number_to_string n) = n"
      by (rule f(3))
  qed
  have neg: "\<forall>n. n < 0 \<longrightarrow> number_to_string n = CHR ''-'' # number_to_string (- n)"
    by (intro allI impI) (rule number_to_string_neg)
  have iso: "\<forall>t. toISOString t =
          (if 0 \<le> YearFromTime t \<and> YearFromTime t \<le> 9999 then pad 4 (YearFromTime t)
           else (if YearFromTime t < 0 then ''-'' else ''+'') @ pad 6 \<bar>YearFromTime t\<bar>)
          @ ''-'' @ pad 2 (MonthFromTime t + 1) @ ''-'' @ pad 2 (DateFromTime t)
          @ ''T'' @ pad 2 (t div 3600000 mod 24) @ '':'' @ pad 2 (t div 60000 mod 60)
          @ '':'' @ pad 2 (t div 1000 mod 60) @ ''.'' @ pad 3 (t mod 1000) @ ''Z''"
    by (rule allI) (rule toISOString_fields)
  have padded: "\<forall>w n. 0 \<le> n \<and> n < 10 ^ w \<longrightarrow>
          length (pad w n) = w \<and> set (pad w n) \<subseteq> set ''0123456789''
          \<and> foldl (\<lambda>a c. a * 10 + (of_char c - 48)) 0 (pad w n) = n"
  proof (intro allI impI conjI)
    fix w and n :: int
    assume a: "0 \<le> n \<and> n < 10 ^ w"
    show "length (pad w n) = w"
      by (rule length_pad)
    show "set (pad w n) \<subseteq> set ''0123456789''"
      by (rule pad_digits)
    from a show "foldl (\<lambda>a c. a * 10 + (of_char c - 48)) 0 (pad w n) = n"
      by (intro pad_value) simp_all
  qed
  have date: "\<forall>t. 0 \<le> MonthFromTime t \<and> MonthFromTime t \<le> 11 \<and> 1 \<le> DateFromTime t
          \<and> DateFromTime t \<le>
              [31, 28 + (if YearFromTime t mod 4 = 0
                           \<and> (YearFromTime t mod 100 \<noteq> 0 \<or> YearFromTime t mod 400 = 0)
                         then 1 else 0),
               31, 30, 31, 30, 31, 31, 30, 31, 30, 31] ! nat (MonthFromTime t)
          \<and> t div 86400000 =
              365 * (YearFromTime t - 1970) + (YearFromTime t - 1969) div 4
              - (YearFromTime t - 1901) div 100 + (YearFromTime t - 1601) div 400
              + sum_list (take (nat (MonthFromTime t))
                  [31, 28 + (if YearFromTime t mod 4 = 0
                               \<and> (YearFromTime t mod 100 \<noteq> 0 \<or> YearFromTime t mod 400 = 0)
                             then 1 else 0),
                   31, 30, 31, 30, 31, 31, 30, 31, 30, 31])
              + DateFromTime t - 1"
    by (rule allI) (rule calendar_date)
  have count: "\<forall>qs. (\<forall>(now, q) \<in> set qs. \<not> is_cleanup q) \<longrightarrow>
          length (export_rows (fst (run init_db qs))) =
            count_status 201 (snd (run init_db qs)) - count_status 204 (snd (run init_db qs))"
    by (intro allI impI) (rule export_rows_run)
  from get_events_export_csv [of d] rows export_rows_length [of d] select_export_columns [of d]
    select_export_sorted [of d] zero pos neg iso padded date count
  show ?thesis by (intro conjI)
qed

lemma sample_run_statuses: "map status (snd (run init_db sample_run)) = [201, 201, 400, 204, 404, 201]"
  by code_simp

lemma sample_run_export:
  "get_events_export (fst (run init_db sample_run)) =
     \<lparr>status = 200,
      payload = Csv (''id,door_number,event_type,timestamp_utc'' @ [CHR 0x0A]
        @ ''3,5,A_IN,2025-10-03T10:00:05.000Z'' @ [CHR 0x0A]
        @ ''2,5,A_IN,2025-10-03T10:00:01.000Z'')\<rparr>"
  by code_simp

lemma week_table_export:
  "get_events_export week_table =
     \<lparr>status = 200,
      payload = Csv (''id,door_number,event_type,timestamp_utc'' @ [CHR 0x0A]
        @ ''4,5,A_IN,2025-09-27T10:00:00.000Z'' @ [CHR 0x0A]
        @ ''3,5,A_IN,2025-09-26T10:00:00.000Z'' @ [CHR 0x0A]
        @ ''1,3,B_OUT,2025-09-25T10:00:00.000Z'')\<rparr>"
  by code_simp

lemma count_status_map: "count_status c rs = length (filter (\<lambda>s. s = c) (map status rs))"
  by (simp add: count_status_def filter_map comp_def)

theorem export_active_rows_witness:
  "get_events_export (fst (run init_db sample_run)) =
     \<lparr>status = 200,
      payload = Csv (''id,door_number,event_type,timestamp_utc'' @ [CHR 0x0A]
        @ ''3,5,A_IN,2025-10-03T10:00:05.000Z'' @ [CHR 0x0A]
        @ ''2,5,A_IN,2025-10-03T10:00:01.000Z'')\<rparr>
   \<and> get_events_export week_table =
     \<lparr>status = 200,
      payload = Csv (''id,door_number,event_type,timestamp_utc'' @ [CHR 0x0A]
        @ ''4,5,A_IN,2025-09-27T10:00:00.000Z'' @ [CHR 0x0A]
        @ ''3,5,A_IN,2025-09-26T10:00:00.000Z'' @ [CHR 0x0A]
        @ ''1,3,B_OUT,2025-09-25T10:00:00.000Z'')\<rparr>
   \<and> map status (snd (run init_db sample_run)) = [201, 201, 400, 204, 404, 201]
   \<and> length (export_rows (fst (run init_db sample_run))) =
       count_status 201 (snd (run init_db sample_run)) - count_status 204 (snd (run init_db sample_run))
   \<and> count_status 201 (snd (run init_db sample_run)) = 3
   \<and> count_status 204 (snd (run init_db sample_run)) = 1
   \<and> number_to_string (- 12) = ''-12''
   \<and> foldl (\<lambda>a c. a * 10 + (of_char c - 48)) 0 (pad 2 7) = (7::int)
   \<and> toISOString 951827696789 = ''2000-02-29T12:34:56.789Z''
   \<and> 951827696789 div 86400000 = (365 * 30 + 7 + 31 + 29 - 1 :: int)"
proof -
  note t = export_active_rows [of init_db]
  have nc: "\<forall>(now, q) \<in> set sample_run. \<not> is_cleanup q"
    by (simp add: sample_run_def)
  have n: "count_status 201 (snd (run init_db sample_run)) = 3"
    unfolding count_status_map sample_run_statuses by simp
  have m: "count_status 204 (snd (run init_db sample_run)) = 1"
    unfolding count_status_map sample_run_statuses by simp
  have l: "length (export_rows (fst (run init_db sample_run))) =
       count_status 201 (snd (run init_db sample_run)) - count_status 204 (snd (run init_db sample_run))"
    using t nc by blast
  have "number_to_string 12 = ''12''"
    by code_simp
  moreover from t have "(- 12 :: int) < 0 \<longrightarrow> number_to_string (- 12) = CHR ''-'' # number_to_string (- (- 12))"
    by blast
  ultimately have s: "number_to_string (- 12) = ''-12''"
    by simp
  from t have "(0::int) \<le> 7 \<and> (7::int) < 10 ^ 2 \<longrightarrow>
      foldl (\<lambda>a c. a * 10 + (of_char c - 48)) 0 (pad 2 7) = (7::int)"
    by blast
  then have p: "foldl (\<lambda>a c. a * 10 + (of_char c - 48)) 0 (pad 2 7) = (7::int)"
    by simp
  have d: "951827696789 div 86400000 = (365 * 30 + 7 + 31 + 29 - 1 :: int)"
    by simp
  from sample_run_export week_table_export sample_run_statuses l n m s p toISOString_examples(3) d
  show ?thesis by (intro conjI)
qed

end
